theory Spec2Isabelle
  imports Main "HOL-Library.Extended_Nat"
begin

section \<open>Text helpers\<close>

text \<open>
  Strings are lists of 8-bit characters. File offsets (bytes) and string indices are
  identified, as they are for single-byte (ASCII) text and in the in-memory file handle of
  the test suite, whose \<open>stat\<close> reports the length of the content string. Multi-byte UTF-8
  content, where \<open>Buffer.toString\<close> changes the length, is outside the model.

  \<open>is_space\<close> is the class \<open>\s\<close> of the regular expressions and the set stripped by
  \<open>String.prototype.trim\<close>, restricted to single-byte characters: tab, line feed, vertical
  tab, form feed, carriage return and space.
\<close>

definition is_space :: "char \<Rightarrow> bool" where
  "is_space c \<longleftrightarrow>
     c = CHR 0x09 \<or> c = CHR 0x0A \<or> c = CHR 0x0B \<or> c = CHR 0x0C \<or> c = CHR 0x0D \<or> c = CHR 0x20"

definition trim :: "string \<Rightarrow> string" where
  "trim s = rev (dropWhile is_space (rev (dropWhile is_space s)))"

text \<open>\<open>s.lastIndexOf(c)\<close>; the result \<open>-1\<close> of JavaScript is \<open>None\<close>.\<close>

definition lastIndexOf :: "char \<Rightarrow> string \<Rightarrow> nat option" where
  "lastIndexOf c s =
     (if c \<in> set s then Some (length s - 1 - length (takeWhile (\<lambda>x. x \<noteq> c) (rev s))) else None)"

text \<open>\<open>removeFirstAndLastBrackets\<close> of utils.ts: \<open>text.slice(1, text.length - 1).trim()\<close>.\<close>

definition removeFirstAndLastBrackets :: "string \<Rightarrow> string" where
  "removeFirstAndLastBrackets text = trim (take (length text - 2) (drop 1 text))"

text \<open>
  The loop of \<open>countNewLinesAndSpacesBeforeLastBracket\<close>: \<open>countBack fileTail (Suc i)\<close> is
  the iteration that inspects index \<open>i\<close>, and the loop runs from \<open>lastBracketIndex - 1\<close>
  down to \<open>0\<close>. An index past the end reads \<open>undefined\<close> and breaks the loop.
\<close>

fun countBack :: "string \<Rightarrow> nat \<Rightarrow> nat" where
  "countBack fileTail 0 = 0"
| "countBack fileTail (Suc i) =
     (if \<not> i < length fileTail then 0
      else if is_space (fileTail ! i) then Suc (countBack fileTail i)
      else 0)"

definition countNewLinesAndSpacesBeforeLastBracket :: "string \<Rightarrow> nat \<Rightarrow> bool \<Rightarrow> nat" where
  "countNewLinesAndSpacesBeforeLastBracket fileTail lastBracketIndex pretty =
     (if pretty then countBack fileTail lastBracketIndex else 0)"

text \<open>
  The test \<open>/[^\s[]\s*]$/.test(trimmedFileTail)\<close>. \<open>commaPatternAt t\<close> is a match that
  starts at the first character of \<open>t\<close>: one character outside \<open>\s\<close> and other than
  \<open>[\<close>, then white space, then \<open>]\<close> at the end of the input. \<open>test\<close> searches every
  start position.
\<close>

definition commaPatternAt :: "string \<Rightarrow> bool" where
  "commaPatternAt t =
     (case t of [] \<Rightarrow> False
      | c # rest \<Rightarrow> \<not> is_space c \<and> c \<noteq> CHR ''['' \<and> dropWhile is_space rest = '']'')"

fun shouldInsertComma :: "string \<Rightarrow> bool" where
  "shouldInsertComma [] = False"
| "shouldInsertComma (c # cs) = (commaPatternAt (c # cs) \<or> shouldInsertComma cs)"

section \<open>Entries and their serialisation\<close>

text \<open>
  Entries are JSON values. \<open>JSON.stringify(value, null, indent)\<close> is the serialiser of
  ECMAScript (SerializeJSONProperty, SerializeJSONArray, SerializeJSONObject,
  QuoteJSONString) on these values: numbers are the integers, printed in decimal as
  JavaScript prints the integers below \<open>10^21\<close> in magnitude (from there on it uses the
  exponent form, which is outside the model), and the gap is \<open>indent\<close> spaces, at most
  ten.
\<close>

datatype json = JNull | JBool bool | JNum int | JStr string
  | JArr "json list" | JObj "(string \<times> json) list"

fun join :: "string \<Rightarrow> string list \<Rightarrow> string" where
  "join sep [] = []"
| "join sep [x] = x"
| "join sep (x # y # ys) = x @ sep @ join sep (y # ys)"

fun digits :: "nat \<Rightarrow> string" where
  "digits n =
     (if n < 10 then [char_of (48 + n)] else digits (n div 10) @ [char_of (48 + n mod 10)])"

declare digits.simps [simp del]

definition numberToString :: "int \<Rightarrow> string" where
  "numberToString n = (if n < 0 then CHR ''-'' # digits (nat (- n)) else digits (nat n))"

definition hexDigit :: "nat \<Rightarrow> char" where
  "hexDigit n = (if n < 10 then char_of (48 + n) else char_of (87 + n))"

definition quoteChar :: "char \<Rightarrow> string" where
  "quoteChar c =
     (if c = CHR 0x08 then [CHR 0x5C, CHR ''b'']
      else if c = CHR 0x09 then [CHR 0x5C, CHR ''t'']
      else if c = CHR 0x0A then [CHR 0x5C, CHR ''n'']
      else if c = CHR 0x0C then [CHR 0x5C, CHR ''f'']
      else if c = CHR 0x0D then [CHR 0x5C, CHR ''r'']
      else if c = CHR 0x22 then [CHR 0x5C, CHR 0x22]
      else if c = CHR 0x5C then [CHR 0x5C, CHR 0x5C]
      else if (of_char c :: nat) < 32
        then [CHR 0x5C, CHR ''u'', CHR ''0'', CHR ''0'',
              hexDigit (of_char c div 16), hexDigit (of_char c mod 16)]
      else [c])"

definition QuoteJSONString :: "string \<Rightarrow> string" where
  "QuoteJSONString s = CHR 0x22 # concat (map quoteChar s) @ [CHR 0x22]"

text \<open>\<open>ser gap ind v\<close>: the text of \<open>v\<close> when the current indentation is \<open>ind\<close>.\<close>

fun ser :: "string \<Rightarrow> string \<Rightarrow> json \<Rightarrow> string" where
  "ser gap ind JNull = ''null''"
| "ser gap ind (JBool b) = (if b then ''true'' else ''false'')"
| "ser gap ind (JNum n) = numberToString n"
| "ser gap ind (JStr s) = QuoteJSONString s"
| "ser gap ind (JArr xs) =
     (if xs = [] then ''[]''
      else if gap = [] then ''['' @ join '','' (map (ser gap (ind @ gap)) xs) @ '']''
      else ''['' @ [CHR 0x0A] @ ind @ gap
           @ join ('','' @ [CHR 0x0A] @ ind @ gap) (map (ser gap (ind @ gap)) xs)
           @ [CHR 0x0A] @ ind @ '']'')"
| "ser gap ind (JObj kvs) =
     (if kvs = [] then ''{}''
      else if gap = []
        then ''{'' @ join '','' (map (\<lambda>(k, v). QuoteJSONString k @ '':'' @ ser gap (ind @ gap) v) kvs)
             @ ''}''
      else ''{'' @ [CHR 0x0A] @ ind @ gap
           @ join ('','' @ [CHR 0x0A] @ ind @ gap)
               (map (\<lambda>(k, v). QuoteJSONString k @ '': '' @ ser gap (ind @ gap) v) kvs)
           @ [CHR 0x0A] @ ind @ ''}'')"

definition JSON_stringify :: "json list \<Rightarrow> nat \<Rightarrow> string" where
  "JSON_stringify dataToWrite indent =
     ser (replicate (min 10 indent) (CHR 0x20)) [] (JArr dataToWrite)"

section \<open>Options\<close>

text \<open>
  \<open>WriterOptions\<close> is the options object a caller passes: every declared property is
  optional, and \<open>opt_others\<close> holds the Boolean properties the object carries beyond the
  declared ones (benchmark.ts passes \<open>suppressThresholdFlushErrors\<close>). The threshold is a
  positive integer or \<open>Infinity\<close> and the indentation a natural number, the values
  \<open>validationOptions\<close> accepts; \<open>fileOpen\<close> is the file system of the state below.
  \<open>RequiredOptions\<close> is what \<open>convertOptions\<close> stores in the writer.
\<close>

record WriterOptions =
  opt_bufferFlushThreshold :: "enat option"
  opt_pretty :: "bool option"
  opt_indent :: "nat option"
  opt_initArray :: "bool option"
  opt_others :: "(string \<times> bool) list"

record RequiredOptions =
  pretty :: bool
  indent :: nat
  initArray :: bool
  bufferFlushThreshold :: enat

definition convertOptions :: "WriterOptions \<Rightarrow> RequiredOptions" where
  "convertOptions options =
     (let pretty = (case opt_pretty options of None \<Rightarrow> True | Some b \<Rightarrow> b)
      in \<lparr> pretty = pretty,
           indent = (if pretty then (case opt_indent options of None \<Rightarrow> 2 | Some n \<Rightarrow> n) else 0),
           initArray = (case opt_initArray options of None \<Rightarrow> True | Some b \<Rightarrow> b),
           bufferFlushThreshold =
             (case opt_bufferFlushThreshold options of None \<Rightarrow> 1 | Some t \<Rightarrow> t) \<rparr>)"

section \<open>The insertion builder\<close>

text \<open>
  \<open>buildInsertion\<close> returns the insertion text and the truncate position. It is called
  only after the check that a closing bracket was found, so \<open>lastBracketIndex\<close> is a
  natural number here.
\<close>

definition buildInsertion ::
  "RequiredOptions \<Rightarrow> json list \<Rightarrow> nat \<Rightarrow> nat \<Rightarrow> string \<Rightarrow> string \<Rightarrow> string \<times> nat" where
  "buildInsertion opts dataToWrite lastBracketIndex readPosition fileTail trimmedFileTail =
     (let jsonString = removeFirstAndLastBrackets (JSON_stringify dataToWrite (indent opts));
          maybeComma = (if shouldInsertComma trimmedFileTail then '','' else []);
          maybeNewLine = (if pretty opts then [CHR 0x0A] else []);
          maybeIndentation = (if pretty opts then replicate (indent opts) (CHR 0x20) else []);
          insertion = maybeComma @ maybeNewLine @ maybeIndentation @ jsonString @ maybeNewLine @ '']'';
          truncatePosition =
            readPosition + lastBracketIndex
              - countNewLinesAndSpacesBeforeLastBracket fileTail lastBracketIndex (pretty opts)
      in (insertion, truncatePosition))"

section \<open>The writer and its file\<close>

text \<open>
  A flush rejects with the error of the missing closing bracket, with the error of the
  file system for a missing file, or with any other failure of an I/O call.
\<close>

datatype error = InvalidJsonArray | NoSuchFile | Fault string

datatype outcome = Resolved | Rejected error

datatype io_call = Open string | Stat | Read nat nat | Write string "nat option"
  | Truncate nat | Close nat

text \<open>
  \<open>ensureAllIsFlushed\<close> is an asynchronous function: it runs until it awaits an I/O call
  and goes on when that call completes. \<open>pc\<close> is the \<open>await\<close> it is suspended at;
  \<open>Returned\<close> is the function after its return or throw, before the reaction that
  \<open>flush\<close> attached to its promise has run; \<open>Idle\<close> is no call of it.
\<close>

datatype pc = Idle | AwaitOpen | AwaitStat | AwaitRead nat nat | AwaitInitWrite
  | AwaitTruncate nat string | AwaitWrite nat string | AwaitClose outcome | Returned outcome

text \<open>
  The state: the fields of \<open>JappendWriter\<close>; the frame of the running
  \<open>ensureAllIsFlushed\<close>; and the environment. The file at \<open>filePath\<close> exists or not and
  has a content. Every successful \<open>fileOpen\<close> returns a new handle, numbered from
  \<open>0\<close>. \<open>calls\<close> lists the I/O calls in the order the writer made them,
  \<open>closed\<close> the handles whose \<open>close\<close> completed. A promise is the number of the
  \<open>flush\<close> that created it, and \<open>settled\<close> records how each one ended.
\<close>

record state =
  options :: RequiredOptions
  buffer :: "json list"
  flushPromise :: "nat option"
  isShutdown :: bool
  pc :: pc
  dataToWrite :: "json list"
  fileHandle :: "nat option"
  fileExists :: bool
  content :: string
  handles :: nat
  closed :: "nat list"
  calls :: "io_call list"
  promises :: nat
  settled :: "(nat \<times> outcome) list"

definition isFull :: "state \<Rightarrow> bool" where
  "isFull s \<longleftrightarrow> enat (length (buffer s)) \<ge> bufferFlushThreshold (options s)"

text \<open>The \<open>finally\<close> block: \<open>await fileHandle?.close()\<close>.\<close>

definition finallyBlock :: "outcome \<Rightarrow> state \<Rightarrow> state" where
  "finallyBlock out s =
     (case fileHandle s of
        None \<Rightarrow> s\<lparr>pc := Returned out\<rparr>
      | Some h \<Rightarrow> s\<lparr>pc := AwaitClose out, calls := calls s @ [Close h]\<rparr>)"

text \<open>The \<open>catch\<close> block: \<open>this.buffer.unshift(...dataToWrite); throw error\<close>.\<close>

definition catchBlock :: "error \<Rightarrow> state \<Rightarrow> state" where
  "catchBlock e s = finallyBlock (Rejected e) (s\<lparr>buffer := dataToWrite s @ buffer s\<rparr>)"

text \<open>
  The head of \<open>while (this.buffer.length > 0)\<close>: the drain
  \<open>this.buffer.splice(0, this.buffer.length)\<close> and the call of \<open>fileOpen\<close>, or the end of
  the loop.
\<close>

definition whileLoop :: "state \<Rightarrow> state" where
  "whileLoop s =
     (if buffer s \<noteq> []
      then s\<lparr>dataToWrite := buffer s, buffer := [], pc := AwaitOpen,
             calls := calls s @ [Open (if initArray (options s) then ''a+'' else ''r+'')]\<rparr>
      else finallyBlock Resolved s)"

definition ensureAllIsFlushed :: "state \<Rightarrow> state" where
  "ensureAllIsFlushed s =
     (if buffer s = [] then s\<lparr>pc := Returned Resolved\<rparr>
      else whileLoop (s\<lparr>dataToWrite := [], fileHandle := None\<rparr>))"

text \<open>\<open>flush({ shutdown })\<close> returns its promise and the new state.\<close>

definition flush :: "bool \<Rightarrow> state \<Rightarrow> nat \<times> state" where
  "flush shutdown s =
     (case flushPromise s of
        Some p \<Rightarrow> (p, if shutdown then s\<lparr>isShutdown := True\<rparr> else s)
      | None \<Rightarrow>
          (let s1 = (if shutdown then s\<lparr>isShutdown := True\<rparr> else s);
               p = promises s1
           in (p, (ensureAllIsFlushed s1)\<lparr>flushPromise := Some p, promises := Suc p\<rparr>)))"

text \<open>\<open>append(newData)\<close> returns the promise of \<open>flush\<close>, or \<open>undefined\<close> (\<open>None\<close>).\<close>

definition append_entry :: "json \<Rightarrow> state \<Rightarrow> nat option \<times> state" where
  "append_entry newData s =
     (if isShutdown s then (None, s)
      else (let s1 = s\<lparr>buffer := buffer s @ [newData]\<rparr>
            in if isFull s1 then (Some (fst (flush False s1)), snd (flush False s1))
               else (None, s1)))"

text \<open>
  The pending I/O call completes. \<open>fault = Some e\<close> is a call that rejects with \<open>e\<close> and
  leaves the file as it was. Otherwise the call acts on the file: \<open>fileOpen\<close> with
  \<open>r+\<close> rejects when the file is missing and with \<open>a+\<close> creates it, empty; \<open>stat\<close>,
  \<open>read\<close>, \<open>write\<close> and \<open>truncate\<close> are those of the in-memory file handle. The
  function then runs to its next \<open>await\<close>.
\<close>

definition ioDone :: "error option \<Rightarrow> state \<Rightarrow> state" where
  "ioDone fault s =
     (case pc s of
        AwaitOpen \<Rightarrow>
          (case fault of Some e \<Rightarrow> catchBlock e s
           | None \<Rightarrow>
               if \<not> initArray (options s) \<and> \<not> fileExists s then catchBlock NoSuchFile s
               else s\<lparr>fileExists := True,
                      content := (if fileExists s then content s else []),
                      fileHandle := Some (handles s),
                      handles := Suc (handles s), pc := AwaitStat, calls := calls s @ [Stat]\<rparr>)
      | AwaitStat \<Rightarrow>
          (case fault of Some e \<Rightarrow> catchBlock e s
           | None \<Rightarrow>
               (let size = length (content s);
                    bufferSize = min size 50;
                    readPosition = size - bufferSize
                in s\<lparr>pc := AwaitRead readPosition bufferSize,
                      calls := calls s @ [Read bufferSize readPosition]\<rparr>))
      | AwaitRead readPosition bufferSize \<Rightarrow>
          (case fault of Some e \<Rightarrow> catchBlock e s
           | None \<Rightarrow>
               (let fileTail = take bufferSize (drop readPosition (content s));
                    lastBracketIndex = lastIndexOf (CHR '']'') fileTail;
                    trimmedFileTail = trim fileTail
                in if trimmedFileTail = [] \<and> initArray (options s)
                   then s\<lparr>pc := AwaitInitWrite,
                          calls := calls s
                            @ [Write (JSON_stringify (dataToWrite s) (indent (options s))) None]\<rparr>
                   else (case lastBracketIndex of
                           None \<Rightarrow> catchBlock InvalidJsonArray s
                         | Some i \<Rightarrow>
                             (let built = buildInsertion (options s) (dataToWrite s) i
                                            readPosition fileTail trimmedFileTail
                              in s\<lparr>pc := AwaitTruncate (snd built) (fst built),
                                    calls := calls s @ [Truncate (snd built)]\<rparr>))))
      | AwaitInitWrite \<Rightarrow>
          (case fault of Some e \<Rightarrow> catchBlock e s
           | None \<Rightarrow>
               whileLoop (s\<lparr>content :=
                 content s @ JSON_stringify (dataToWrite s) (indent (options s))\<rparr>))
      | AwaitTruncate truncatePosition insertion \<Rightarrow>
          (case fault of Some e \<Rightarrow> catchBlock e s
           | None \<Rightarrow>
               s\<lparr>content := take truncatePosition (content s),
                 pc := AwaitWrite truncatePosition insertion,
                 calls := calls s @ [Write insertion (Some truncatePosition)]\<rparr>)
      | AwaitWrite position data \<Rightarrow>
          (case fault of Some e \<Rightarrow> catchBlock e s
           | None \<Rightarrow>
               if position > length (content s)
               then catchBlock (Fault ''position out of bounds'') s
               else whileLoop (s\<lparr>content :=
                      take position (content s) @ data
                        @ drop (position + length data) (content s)\<rparr>))
      | AwaitClose out \<Rightarrow>
          (case fault of Some e \<Rightarrow> s\<lparr>pc := Returned (Rejected e)\<rparr>
           | None \<Rightarrow>
               s\<lparr>closed := closed s @ (case fileHandle s of None \<Rightarrow> [] | Some h \<Rightarrow> [h]),
                 pc := Returned out\<rparr>)
      | Returned out \<Rightarrow> s
      | Idle \<Rightarrow> s)"

text \<open>
  The reaction \<open>flush\<close> attached with \<open>then\<close> and \<open>catch\<close>: it clears
  \<open>flushPromise\<close>, and the promise \<open>flush\<close> returned ends as the function did.
\<close>

definition settle :: "state \<Rightarrow> state" where
  "settle s =
     (case pc s of
        Returned out \<Rightarrow>
          (case flushPromise s of
             Some p \<Rightarrow> s\<lparr>flushPromise := None, pc := Idle, settled := settled s @ [(p, out)]\<rparr>
           | None \<Rightarrow> s)
      | _ \<Rightarrow> s)"

text \<open>
  What can happen to a writer, one at a time: a caller appends, a caller flushes, the
  pending I/O call completes, the reaction of the finished flush runs.
\<close>

datatype event = Append json | Flush bool | IoDone "error option" | Settle

fun step :: "event \<Rightarrow> state \<Rightarrow> state" where
  "step (Append newData) s = snd (append_entry newData s)"
| "step (Flush shutdown) s = snd (flush shutdown s)"
| "step (IoDone fault) s = ioDone fault s"
| "step Settle s = settle s"

definition exec :: "event list \<Rightarrow> state \<Rightarrow> state" where
  "exec evs s = fold step evs s"

text \<open>The writer after its constructor, with the file as it is then.\<close>

definition newWriter :: "RequiredOptions \<Rightarrow> bool \<Rightarrow> string \<Rightarrow> state" where
  "newWriter opts exists text =
     \<lparr> options = opts, buffer = [], flushPromise = None, isShutdown = False,
       pc = Idle, dataToWrite = [], fileHandle = None,
       fileExists = exists, content = text, handles = 0, closed = [], calls = [],
       promises = 0, settled = [] \<rparr>"

text \<open>
  \<open>jappend(filePath, newData, options)\<close> of jappend.ts: a new writer whose threshold is
  \<open>1\<close>, and one \<open>append\<close>. The file is given as it is at the call.
\<close>

definition jappend :: "WriterOptions \<Rightarrow> json \<Rightarrow> bool \<Rightarrow> string \<Rightarrow> nat option \<times> state" where
  "jappend opts newData exists text =
     append_entry newData
       (newWriter (convertOptions (opts\<lparr>opt_bufferFlushThreshold := Some 1\<rparr>)) exists text)"

text \<open>The number of \<open>write\<close> calls among the I/O calls.\<close>

definition writes :: "io_call list \<Rightarrow> nat" where
  "writes cs = length (filter (\<lambda>c. case c of Write data position \<Rightarrow> True | _ \<Rightarrow> False) cs)"

text \<open>
  \<open>inCycle\<close>: the function is inside its \<open>try\<close> block, between the drain and the
  completion of the write. \<open>pending\<close> lists the entries whose write has not completed: the
  drained batch of the running cycle, then the queue.
\<close>

definition inCycle :: "pc \<Rightarrow> bool" where
  "inCycle p =
     (case p of Idle \<Rightarrow> False | AwaitClose out \<Rightarrow> False | Returned out \<Rightarrow> False | _ \<Rightarrow> True)"

definition pending :: "state \<Rightarrow> json list" where
  "pending s = (if inCycle (pc s) then dataToWrite s else []) @ buffer s"

text \<open>
  \<open>oneWrite w s\<close>: a function that drained once from a writer with \<open>w\<close> writes behind
  it, and whose queue stayed empty, has called \<open>write\<close> once more when it is past the
  call, and not yet before.
\<close>

definition oneWrite :: "nat \<Rightarrow> state \<Rightarrow> bool" where
  "oneWrite w s \<longleftrightarrow>
     (case pc s of
        Idle \<Rightarrow> False
      | AwaitOpen \<Rightarrow> buffer s = [] \<and> writes (calls s) = w
      | AwaitStat \<Rightarrow> buffer s = [] \<and> writes (calls s) = w
      | AwaitRead a b \<Rightarrow> buffer s = [] \<and> writes (calls s) = w
      | AwaitTruncate a b \<Rightarrow> buffer s = [] \<and> writes (calls s) = w
      | AwaitInitWrite \<Rightarrow> buffer s = [] \<and> writes (calls s) = Suc w
      | AwaitWrite a b \<Rightarrow> buffer s = [] \<and> writes (calls s) = Suc w
      | AwaitClose out \<Rightarrow> out = Resolved \<longrightarrow> buffer s = [] \<and> writes (calls s) = Suc w
      | Returned out \<Rightarrow> out = Resolved \<longrightarrow> buffer s = [] \<and> writes (calls s) = Suc w)"

text \<open>
  \<open>accepts s\<close>: the file can take a batch. It can be opened, and the window of its last
  50 bytes either holds a closing bracket or is empty or white space where the writer
  initialises the array.
\<close>

definition accepts :: "state \<Rightarrow> bool" where
  "accepts s \<longleftrightarrow>
     (fileExists s \<or> initArray (options s)) \<and>
     (let text = (if fileExists s then content s else []);
          bufferSize = min (length text) 50;
          fileTail = take bufferSize (drop (length text - bufferSize) text)
      in (trim fileTail = [] \<and> initArray (options s))
         \<or> lastIndexOf (CHR '']'') fileTail \<noteq> None)"

text \<open>A flush is in flight exactly while \<open>flushPromise\<close> is set.\<close>

definition wf_state :: "state \<Rightarrow> bool" where
  "wf_state s \<longleftrightarrow> (flushPromise s = None) = (pc s = Idle)"

text \<open>
  Writers for the examples: the default options with a threshold, and a file.
  \<open>queued1\<close> holds one entry for the file \<open>[]\<close>; \<open>queuedNoInit\<close> holds one entry
  for an empty file, with \<open>initArray: false\<close>; \<open>shutQueued\<close> holds one entry after a
  flush that failed and a shutdown.
\<close>

definition sampleOptions :: "enat \<Rightarrow> bool \<Rightarrow> RequiredOptions" where
  "sampleOptions threshold init =
     \<lparr> pretty = True, indent = 2, initArray = init, bufferFlushThreshold = threshold \<rparr>"

definition queued1 :: state where
  "queued1 = snd (append_entry (JNum 1) (newWriter (sampleOptions 5 True) True ''[]''))"

definition queuedNoInit :: state where
  "queuedNoInit = snd (append_entry (JNum 1) (newWriter (sampleOptions 5 False) True []))"

definition shutQueued :: state where
  "shutQueued =
     exec [Append (JNum 1), Flush False, IoDone (Some (Fault ''open'')), Flush True, Settle]
       (newWriter (sampleOptions 5 True) True ''[]'')"

text \<open>\<open>writeCompletes fault s\<close>: the pending call is the write of the batch, and it succeeds.\<close>

definition writeCompletes :: "error option \<Rightarrow> state \<Rightarrow> bool" where
  "writeCompletes fault s \<longleftrightarrow> fault = None \<and>
     (case pc s of
        AwaitInitWrite \<Rightarrow> True
      | AwaitWrite position data \<Rightarrow> position \<le> length (content s)
      | _ \<Rightarrow> False)"

text \<open>
  Files and runs for the examples.
  \<^item> \<open>wideGapFile\<close> is the array of the one element \<open>1\<close> with 49 spaces before its
    closing bracket; \<open>wideGapRun\<close> is a flush of the entry \<open>2\<close> to it in which every
    call succeeds, and \<open>smallFileRun\<close> the same flush to the file \<open>[1]\<close>.
  \<^item> \<open>fireAndForget\<close> are the options of the fire-and-forget benchmark, with a threshold
    of two; in \<open>thresholdFlushFails\<close> the second \<open>append\<close> reaches the threshold and
    the write of the flush it triggers fails.
  \<^item> In \<open>writePending\<close> and \<open>appendedMeanwhile\<close> a second entry is appended while
    the file is being opened for the first: the one stops where the function awaits the
    first write, the other runs to the end, and every call succeeds.
  \<^item> In \<open>closeFails\<close> every call for one entry succeeds but the last, \<open>close\<close>.
  \<^item> \<open>emptyNoInit\<close> is an \<open>append\<close> with threshold \<open>1\<close> and
    \<open>initArray: false\<close> on a file that exists and is empty.
\<close>

definition wideGapFile :: string where
  "wideGapFile = ''[1'' @ replicate 49 (CHR 0x20) @ '']''"

definition wideGapRun :: state where
  "wideGapRun =
     exec (Append (JNum 2) # Flush False # replicate 6 (IoDone None) @ [Settle])
       (newWriter (sampleOptions 5 True) True wideGapFile)"

definition smallFileRun :: state where
  "smallFileRun =
     exec (Append (JNum 2) # Flush False # replicate 6 (IoDone None) @ [Settle])
       (newWriter (sampleOptions 5 True) True ''[1]'')"

definition fireAndForget :: WriterOptions where
  "fireAndForget =
     \<lparr> opt_bufferFlushThreshold = Some 2, opt_pretty = None, opt_indent = None,
       opt_initArray = None, opt_others = [(''suppressThresholdFlushErrors'', True)] \<rparr>"

definition thresholdFlushFails :: state where
  "thresholdFlushFails =
     exec [Append (JNum 1), Append (JNum 2), IoDone None, IoDone None, IoDone None, IoDone None,
           IoDone (Some (Fault ''disk full'')), IoDone None, Settle]
       (newWriter (convertOptions fireAndForget) True ''[]'')"

definition writePending :: state where
  "writePending =
     exec [Append (JNum 1), Flush False, Append (JNum 2),
           IoDone None, IoDone None, IoDone None, IoDone None]
       (newWriter (sampleOptions 5 True) True ''[]'')"

definition closeFails :: state where
  "closeFails =
     exec [Append (JNum 1), Flush False, IoDone None, IoDone None, IoDone None, IoDone None,
           IoDone None, IoDone (Some (Fault ''close'')), Settle]
       (newWriter (sampleOptions 5 True) True ''[]'')"

definition appendedMeanwhile :: state where
  "appendedMeanwhile =
     exec [Append (JNum 1), Flush False, Append (JNum 2),
           IoDone None, IoDone None, IoDone None, IoDone None, IoDone None,
           IoDone None, IoDone None, IoDone None, IoDone None, IoDone None, IoDone None, Settle]
       (newWriter (sampleOptions 5 True) True ''[]'')"

definition emptyNoInit :: state where
  "emptyNoInit =
     exec [Append (JNum 1), IoDone None, IoDone None, IoDone None, IoDone None, Settle]
       (newWriter (sampleOptions 1 False) True [])"

section \<open>The separating comma\<close>

lemma is_space_bracket [simp]: "\<not> is_space (CHR '']'')" "\<not> is_space (CHR ''['')"
  by (simp_all add: is_space_def)

lemma dropWhile_space_close:
  "list_all is_space w \<Longrightarrow> dropWhile is_space (w @ '']'') = '']''"
  by (induction w) simp_all

lemma commaPatternAt_iff:
  "commaPatternAt t \<longleftrightarrow>
     (\<exists>c w. t = c # w @ '']'' \<and> \<not> is_space c \<and> c \<noteq> CHR ''['' \<and> list_all is_space w)"
proof
  assume "commaPatternAt t"
  then obtain c rest where t: "t = c # rest" and c: "\<not> is_space c" "c \<noteq> CHR ''[''"
    and d: "dropWhile is_space rest = '']''"
    by (auto simp: commaPatternAt_def split: list.splits)
  have "rest = takeWhile is_space rest @ '']''"
    using takeWhile_dropWhile_id [of is_space rest] d by simp
  moreover have "list_all is_space (takeWhile is_space rest)"
    by (simp add: list_all_iff) (meson set_takeWhileD)
  ultimately show "\<exists>c w. t = c # w @ '']'' \<and> \<not> is_space c \<and> c \<noteq> CHR ''['' \<and> list_all is_space w"
    using t c by blast
next
  assume "\<exists>c w. t = c # w @ '']'' \<and> \<not> is_space c \<and> c \<noteq> CHR ''['' \<and> list_all is_space w"
  then show "commaPatternAt t"
    by (auto simp: commaPatternAt_def dropWhile_space_close)
qed

lemma shouldInsertComma_iff:
  "shouldInsertComma t \<longleftrightarrow>
     (\<exists>pre c w. t = pre @ c # w @ '']'' \<and> \<not> is_space c \<and> c \<noteq> CHR ''['' \<and> list_all is_space w)"
proof (induction t)
  case Nil
  show ?case by simp
next
  case (Cons a t)
  show ?case
  proof
    assume "shouldInsertComma (a # t)"
    then consider "commaPatternAt (a # t)" | "shouldInsertComma t" by auto
    then show "\<exists>pre c w. a # t = pre @ c # w @ '']'' \<and> \<not> is_space c \<and> c \<noteq> CHR ''['' \<and> list_all is_space w"
    proof cases
      case 1
      then obtain c w where "a # t = [] @ c # w @ '']''" "\<not> is_space c" "c \<noteq> CHR ''[''" "list_all is_space w"
        unfolding commaPatternAt_iff by auto
      then show ?thesis by blast
    next
      case 2
      then obtain pre c w where "t = pre @ c # w @ '']''" "\<not> is_space c" "c \<noteq> CHR ''[''" "list_all is_space w"
        using Cons.IH by auto
      then have "a # t = (a # pre) @ c # w @ '']''" by simp
      then show ?thesis using \<open>\<not> is_space c\<close> \<open>c \<noteq> CHR ''[''\<close> \<open>list_all is_space w\<close> by blast
    qed
  next
    assume "\<exists>pre c w. a # t = pre @ c # w @ '']'' \<and> \<not> is_space c \<and> c \<noteq> CHR ''['' \<and> list_all is_space w"
    then obtain pre c w where eq: "a # t = pre @ c # w @ '']''"
      and c: "\<not> is_space c" "c \<noteq> CHR ''[''" and w: "list_all is_space w" by blast
    show "shouldInsertComma (a # t)"
    proof (cases pre)
      case Nil
      with eq c w have "commaPatternAt (a # t)" unfolding commaPatternAt_iff by auto
      then show ?thesis by simp
    next
      case (Cons p pre')
      with eq have "t = pre' @ c # w @ '']''" by simp
      with c w have "shouldInsertComma t" using Cons.IH by blast
      then show ?thesis by simp
    qed
  qed
qed

text \<open>
  C7. The insertion begins with a comma exactly when the trimmed tail ends in a character
  that is neither white space nor \<open>[\<close>, followed (after optional white space) by the
  closing bracket; the rest of the insertion does not depend on the tail. The trimmed tail
  \<open>[1,2]\<close> gets the comma, the trimmed tail \<open>[]\<close> does not.
\<close>

theorem C7_comma_iff_tail_has_element:
  "(let body =
      (if pretty opts then [CHR 0x0A] @ replicate (indent opts) (CHR 0x20) else [])
      @ removeFirstAndLastBrackets (JSON_stringify d (indent opts))
      @ (if pretty opts then [CHR 0x0A] else []) @ '']''
    in fst (buildInsertion opts d i readPosition fileTail t) =
           (if (\<exists>pre c w. t = pre @ c # w @ '']'' \<and> \<not> is_space c \<and> c \<noteq> CHR ''[''
                  \<and> list_all is_space w)
            then '','' else []) @ body
         \<and> fst (buildInsertion opts d i readPosition fileTail ''[1,2]'') = '','' @ body
         \<and> fst (buildInsertion opts d i readPosition fileTail ''[]'') = body)"
proof -
  have a: "shouldInsertComma ''[1,2]''" "\<not> shouldInsertComma ''[]''"
    by (simp_all add: commaPatternAt_def is_space_def)
  show ?thesis
    unfolding buildInsertion_def Let_def fst_conv
    using a by (simp add: shouldInsertComma_iff [symmetric])
qed

theorem C7_witness:
  "fst (buildInsertion \<lparr> pretty = True, indent = 2, initArray = True, bufferFlushThreshold = 1 \<rparr>
          [JNum 3] 4 0 ''[1,2]'' ''[1,2]'') = '','' @ [CHR 0x0A] @ ''  3'' @ [CHR 0x0A] @ '']''
   \<and> fst (buildInsertion \<lparr> pretty = False, indent = 0, initArray = True, bufferFlushThreshold = 1 \<rparr>
          [JNum 3] 1 0 ''[]'' ''[]'') = ''3]''"
proof -
  let ?p = "\<lparr> pretty = True, indent = 2, initArray = True, bufferFlushThreshold = 1 \<rparr>"
  let ?q = "\<lparr> pretty = False, indent = 0, initArray = True, bufferFlushThreshold = 1 \<rparr>"
  have "fst (buildInsertion ?p [JNum 3] 4 0 ''[1,2]'' ''[1,2]'') =
      '','' @ (if pretty ?p then [CHR 0x0A] @ replicate (indent ?p) (CHR 0x20) else [])
      @ removeFirstAndLastBrackets (JSON_stringify [JNum 3] (indent ?p))
      @ (if pretty ?p then [CHR 0x0A] else []) @ '']''"
    using C7_comma_iff_tail_has_element [of ?p "[JNum 3]" 4 0 "''[1,2]''" "''[1,2]''"]
    unfolding Let_def by blast
  also have "\<dots> = '','' @ [CHR 0x0A] @ ''  3'' @ [CHR 0x0A] @ '']''"
    by code_simp
  finally have a: "fst (buildInsertion ?p [JNum 3] 4 0 ''[1,2]'' ''[1,2]'')
      = '','' @ [CHR 0x0A] @ ''  3'' @ [CHR 0x0A] @ '']''" .
  have "fst (buildInsertion ?q [JNum 3] 1 0 ''[]'' ''[]'') =
      (if pretty ?q then [CHR 0x0A] @ replicate (indent ?q) (CHR 0x20) else [])
      @ removeFirstAndLastBrackets (JSON_stringify [JNum 3] (indent ?q))
      @ (if pretty ?q then [CHR 0x0A] else []) @ '']''"
    using C7_comma_iff_tail_has_element [of ?q "[JNum 3]" 1 0 "''[]''" "''[]''"]
    unfolding Let_def by blast
  also have "\<dots> = ''3]''"
    by code_simp
  finally show ?thesis using a by simp
qed

section \<open>Flush, append and the reaction\<close>

lemma flush_in_flight:
  "flushPromise s = Some p \<Longrightarrow> flush shutdown s = (p, if shutdown then s\<lparr>isShutdown := True\<rparr> else s)"
  by (simp add: flush_def)

lemma flush_idle_empty:
  "flushPromise s = None \<Longrightarrow> buffer s = [] \<Longrightarrow>
   flush shutdown s = (promises s,
      s\<lparr>isShutdown := isShutdown s \<or> shutdown, pc := Returned Resolved,
        flushPromise := Some (promises s), promises := Suc (promises s)\<rparr>)"
  by (cases shutdown) (simp_all add: flush_def ensureAllIsFlushed_def Let_def)

lemma flush_idle_drain:
  "flushPromise s = None \<Longrightarrow> buffer s \<noteq> [] \<Longrightarrow>
   flush shutdown s = (promises s,
      s\<lparr>isShutdown := isShutdown s \<or> shutdown, dataToWrite := buffer s, fileHandle := None,
        buffer := [], pc := AwaitOpen,
        calls := calls s @ [Open (if initArray (options s) then ''a+'' else ''r+'')],
        flushPromise := Some (promises s), promises := Suc (promises s)\<rparr>)"
  by (cases shutdown) (simp_all add: flush_def ensureAllIsFlushed_def whileLoop_def Let_def)

lemma flushPromise_flush:
  "flushPromise (snd (flush shutdown s)) = Some (fst (flush shutdown s))"
  by (simp add: flush_def Let_def split: option.splits)

lemma flushPromise_ioDone [simp]: "flushPromise (ioDone fault s) = flushPromise s"
  by (simp add: ioDone_def catchBlock_def finallyBlock_def whileLoop_def Let_def
      split: pc.splits option.splits)

lemma flushPromise_append:
  "flushPromise s = Some p \<Longrightarrow> flushPromise (snd (append_entry x s)) = Some p"
  by (simp add: append_entry_def Let_def flush_in_flight)

lemma exec_Nil [simp]: "exec [] s = s" by (simp add: exec_def)
lemma exec_Cons [simp]: "exec (ev # evs) s = exec evs (step ev s)" by (simp add: exec_def)
lemma exec_append: "exec (a @ b) s = exec b (exec a s)" by (simp add: exec_def)

lemma writes_simps [simp]:
  "writes [] = 0"
  "writes (cs @ [Write d p]) = Suc (writes cs)"
  "writes (cs @ [Open m]) = writes cs"
  "writes (cs @ [Stat]) = writes cs"
  "writes (cs @ [Read a b]) = writes cs"
  "writes (cs @ [Truncate n]) = writes cs"
  "writes (cs @ [Close h]) = writes cs"
  by (simp_all add: writes_def)

lemma oneWrite_ioDone:
  assumes "oneWrite w s"
  shows "oneWrite w (ioDone fault s)"
proof (cases "pc s")
  case Idle
  with assms show ?thesis by (simp add: oneWrite_def)
next
  case AwaitOpen
  with assms show ?thesis
    by (cases "fileHandle s"; cases fault)
       (auto simp: oneWrite_def ioDone_def catchBlock_def finallyBlock_def)
next
  case AwaitStat
  with assms show ?thesis
    by (cases "fileHandle s"; cases fault)
       (auto simp: oneWrite_def ioDone_def catchBlock_def finallyBlock_def Let_def)
next
  case (AwaitRead a b)
  with assms show ?thesis
    by (cases "fileHandle s"; cases fault)
       (auto simp: oneWrite_def ioDone_def catchBlock_def finallyBlock_def Let_def split: option.splits)
next
  case AwaitInitWrite
  with assms show ?thesis
    by (cases "fileHandle s"; cases fault)
       (auto simp: oneWrite_def ioDone_def catchBlock_def finallyBlock_def whileLoop_def Let_def)
next
  case (AwaitTruncate a b)
  with assms show ?thesis
    by (cases "fileHandle s"; cases fault)
       (auto simp: oneWrite_def ioDone_def catchBlock_def finallyBlock_def Let_def)
next
  case (AwaitWrite a b)
  with assms show ?thesis
    by (cases "fileHandle s"; cases fault)
       (auto simp: oneWrite_def ioDone_def catchBlock_def finallyBlock_def whileLoop_def Let_def)
next
  case (AwaitClose out)
  with assms show ?thesis
    by (cases fault) (auto simp: oneWrite_def ioDone_def)
next
  case (Returned out)
  with assms show ?thesis
    by (auto simp: oneWrite_def ioDone_def)
qed

lemma oneWrite_exec:
  "oneWrite w s \<Longrightarrow> oneWrite w (exec (map IoDone faults) s)"
  by (induction faults arbitrary: s) (simp_all add: oneWrite_ioDone)

lemma flushPromise_exec_ioDone [simp]:
  "flushPromise (exec (map IoDone faults) s) = flushPromise s"
  by (induction faults arbitrary: s) simp_all

lemma settled_ioDone [simp]: "settled (ioDone fault s) = settled s"
  by (simp add: ioDone_def catchBlock_def finallyBlock_def whileLoop_def Let_def
      split: pc.splits option.splits)

lemma settled_exec_ioDone [simp]:
  "settled (exec (map IoDone faults) s) = settled s"
  by (induction faults arbitrary: s) simp_all

lemma oneWrite_settle:
  assumes "oneWrite w s" "flushPromise s = Some p"
    and "settled (settle s) = settled s @ [(p, Resolved)]"
  shows "writes (calls (settle s)) = Suc w \<and> buffer (settle s) = []
         \<and> flushPromise (settle s) = None"
  using assms by (auto simp: oneWrite_def settle_def split: pc.splits)

lemma flushPromise_step:
  "flushPromise s = Some p \<Longrightarrow> ev \<noteq> Settle \<Longrightarrow> flushPromise (step ev s) = Some p"
  by (cases ev) (auto simp: flushPromise_append flush_in_flight)

lemma flushPromise_exec:
  "flushPromise s = Some p \<Longrightarrow> Settle \<notin> set evs \<Longrightarrow> flushPromise (exec evs s) = Some p"
  by (induction evs arbitrary: s) (auto simp: flushPromise_step)

section \<open>A flush on which no call fails\<close>

text \<open>
  One cycle makes at most six I/O calls: \<open>open\<close>, \<open>stat\<close>, \<open>read\<close>, then either the
  \<open>write\<close> of a fresh array that holds the batch, or \<open>truncate\<close> and the \<open>write\<close> of the
  insertion, and \<open>close\<close>. The lemmas below follow the cycle call by call when every call
  succeeds, on a file that \<open>accepts\<close> the batch and on one that does not, and give the
  state after the reaction of \<open>flush\<close> has run. A completion that arrives when no call is
  pending changes nothing.
\<close>

lemma lastIndexOf_less: "lastIndexOf c t = Some i \<Longrightarrow> i < length t"
  by (cases t) (auto simp: lastIndexOf_def split: if_splits)

lemma buildInsertion_position:
  "snd (buildInsertion opts d i rp fileTail t) \<le> rp + i"
  by (simp add: buildInsertion_def Let_def)

lemma ioDone_open:
  assumes "pc s = AwaitOpen" "fileExists s \<or> initArray (options s)"
  shows "ioDone None s =
     s\<lparr>fileExists := True, content := (if fileExists s then content s else []),
       fileHandle := Some (handles s), handles := Suc (handles s), pc := AwaitStat,
       calls := calls s @ [Stat]\<rparr>"
  using assms by (auto simp: ioDone_def)

lemma ioDone_open_missing:
  assumes "pc s = AwaitOpen" "\<not> fileExists s" "\<not> initArray (options s)"
  shows "ioDone None s = catchBlock NoSuchFile s"
  using assms by (simp add: ioDone_def)

lemma ioDone_stat:
  assumes "pc s = AwaitStat"
  shows "ioDone None s =
     s\<lparr>pc := AwaitRead (length (content s) - min (length (content s)) 50)
                (min (length (content s)) 50),
       calls := calls s @ [Read (min (length (content s)) 50)
                (length (content s) - min (length (content s)) 50)]\<rparr>"
  using assms by (simp add: ioDone_def Let_def)

lemma ioDone_read_init:
  assumes "pc s = AwaitRead rp bs" "trim (take bs (drop rp (content s))) = []"
    "initArray (options s)"
  shows "ioDone None s =
     s\<lparr>pc := AwaitInitWrite,
       calls := calls s @ [Write (JSON_stringify (dataToWrite s) (indent (options s))) None]\<rparr>"
  using assms by (simp add: ioDone_def Let_def)

lemma ioDone_read_invalid:
  assumes "pc s = AwaitRead rp bs"
    "\<not> (trim (take bs (drop rp (content s))) = [] \<and> initArray (options s))"
    "lastIndexOf (CHR '']'') (take bs (drop rp (content s))) = None"
  shows "ioDone None s = catchBlock InvalidJsonArray s"
  using assms by (auto simp: ioDone_def Let_def)

lemma ioDone_read_patch:
  assumes "pc s = AwaitRead rp bs"
    "\<not> (trim (take bs (drop rp (content s))) = [] \<and> initArray (options s))"
    "lastIndexOf (CHR '']'') (take bs (drop rp (content s))) = Some i"
  shows "ioDone None s =
     s\<lparr>pc := AwaitTruncate
         (snd (buildInsertion (options s) (dataToWrite s) i rp (take bs (drop rp (content s)))
                (trim (take bs (drop rp (content s)))))) 
         (fst (buildInsertion (options s) (dataToWrite s) i rp (take bs (drop rp (content s)))
                (trim (take bs (drop rp (content s)))))),
       calls := calls s @ [Truncate
         (snd (buildInsertion (options s) (dataToWrite s) i rp (take bs (drop rp (content s)))
                (trim (take bs (drop rp (content s))))))]\<rparr>"
  using assms by (auto simp: ioDone_def Let_def)

lemma ioDone_init_write:
  assumes "pc s = AwaitInitWrite" "buffer s = []" "fileHandle s = Some h"
  shows "ioDone None s =
     s\<lparr>content := content s @ JSON_stringify (dataToWrite s) (indent (options s)),
       pc := AwaitClose Resolved, calls := calls s @ [Close h]\<rparr>"
  using assms by (simp add: ioDone_def whileLoop_def finallyBlock_def)

lemma ioDone_truncate:
  assumes "pc s = AwaitTruncate tp ins"
  shows "ioDone None s =
     s\<lparr>content := take tp (content s), pc := AwaitWrite tp ins,
       calls := calls s @ [Write ins (Some tp)]\<rparr>"
  using assms by (simp add: ioDone_def)

lemma ioDone_write:
  assumes "pc s = AwaitWrite tp ins" "tp \<le> length (content s)" "buffer s = []"
    "fileHandle s = Some h"
  shows "ioDone None s =
     s\<lparr>content := take tp (content s) @ ins @ drop (tp + length ins) (content s),
       pc := AwaitClose Resolved, calls := calls s @ [Close h]\<rparr>"
  using assms by (simp add: ioDone_def whileLoop_def finallyBlock_def)

lemma ioDone_close:
  assumes "pc s = AwaitClose out" "fileHandle s = Some h"
  shows "ioDone None s = s\<lparr>closed := closed s @ [h], pc := Returned out\<rparr>"
  using assms by (simp add: ioDone_def)

lemma ioDone_returned:
  assumes "pc s = Returned out"
  shows "ioDone fault s = s"
  using assms by (simp add: ioDone_def)

lemma exec_six:
  "exec (replicate 6 (IoDone None) @ [Settle]) s =
     settle (ioDone None (ioDone None (ioDone None (ioDone None (ioDone None (ioDone None s))))))"
  by (simp add: eval_nat_numeral)

lemma run_missing:
  assumes idle: "flushPromise s = None" and q: "buffer s \<noteq> []"
    and no: "\<not> fileExists s" "\<not> initArray (options s)"
    and sf: "sf = exec (replicate 6 (IoDone None) @ [Settle]) (snd (flush False s))"
  shows "settled sf = settled s @ [(promises s, Rejected NoSuchFile)]"
    "writes (calls sf) = writes (calls s)" "buffer sf = buffer s" "flushPromise sf = None"
proof -
  define t1 where "t1 = snd (flush False s)"
  define t2 where "t2 = ioDone None t1"
  have e1: "t1 = s\<lparr>isShutdown := isShutdown s \<or> False, dataToWrite := buffer s,
        fileHandle := None, buffer := [], pc := AwaitOpen,
        calls := calls s @ [Open (if initArray (options s) then ''a+'' else ''r+'')],
        flushPromise := Some (promises s), promises := Suc (promises s)\<rparr>"
    unfolding t1_def using idle q by (simp add: flush_idle_drain)
  have "t2 = catchBlock NoSuchFile t1"
    unfolding t2_def using no by (intro ioDone_open_missing) (simp_all add: e1)
  then have e2: "t2 = t1\<lparr>buffer := buffer s, pc := Returned (Rejected NoSuchFile)\<rparr>"
    by (simp add: catchBlock_def finallyBlock_def e1)
  have r: "ioDone None t2 = t2"
    by (rule ioDone_returned [of _ "Rejected NoSuchFile"]) (simp add: e2)
  have "sf = settle t2"
    unfolding sf exec_six t1_def [symmetric] t2_def [symmetric] by (simp add: r)
  then have e: "sf = t2\<lparr>flushPromise := None, pc := Idle,
      settled := settled s @ [(promises s, Rejected NoSuchFile)]\<rparr>"
    by (simp add: settle_def e2 e1)
  show "settled sf = settled s @ [(promises s, Rejected NoSuchFile)]" by (simp add: e)
  show "writes (calls sf) = writes (calls s)" by (simp add: e e2 e1)
  show "buffer sf = buffer s" by (simp add: e e2 e1)
  show "flushPromise sf = None" by (simp add: e)
qed

lemma run_opened:
  assumes idle: "flushPromise s = None" and q: "buffer s \<noteq> []"
    and ok: "fileExists s \<or> initArray (options s)"
    and t3: "t3 = ioDone None (ioDone None (snd (flush False s)))"
    and tx: "text = (if fileExists s then content s else [])"
  shows "pc t3 = AwaitRead (length text - min (length text) 50) (min (length text) 50)"
    "content t3 = text" "options t3 = options s" "dataToWrite t3 = buffer s"
    "buffer t3 = []" "fileHandle t3 = Some (handles s)"
    "flushPromise t3 = Some (promises s)" "settled t3 = settled s"
    "writes (calls t3) = writes (calls s)"
proof -
  define t1 where "t1 = snd (flush False s)"
  define t2 where "t2 = ioDone None t1"
  have e1: "t1 = s\<lparr>isShutdown := isShutdown s \<or> False, dataToWrite := buffer s,
        fileHandle := None, buffer := [], pc := AwaitOpen,
        calls := calls s @ [Open (if initArray (options s) then ''a+'' else ''r+'')],
        flushPromise := Some (promises s), promises := Suc (promises s)\<rparr>"
    unfolding t1_def using idle q by (simp add: flush_idle_drain)
  have e2: "t2 = t1\<lparr>fileExists := True, content := (if fileExists t1 then content t1 else []),
       fileHandle := Some (handles t1), handles := Suc (handles t1), pc := AwaitStat,
       calls := calls t1 @ [Stat]\<rparr>"
    unfolding t2_def using ok by (intro ioDone_open) (simp_all add: e1)
  have c2: "content t2 = text" "pc t2 = AwaitStat"
    by (simp_all add: e2 e1 tx)
  have e3: "t3 = t2\<lparr>pc := AwaitRead (length text - min (length text) 50) (min (length text) 50),
       calls := calls t2 @ [Read (min (length text) 50) (length text - min (length text) 50)]\<rparr>"
    unfolding t3 t1_def [symmetric] t2_def [symmetric]
    using ioDone_stat [OF c2(2)] unfolding c2(1) .
  show "pc t3 = AwaitRead (length text - min (length text) 50) (min (length text) 50)"
    by (simp add: e3)
  show "content t3 = text" by (simp add: e3 c2)
  show "options t3 = options s" by (simp add: e3 e2 e1)
  show "dataToWrite t3 = buffer s" by (simp add: e3 e2 e1)
  show "buffer t3 = []" by (simp add: e3 e2 e1)
  show "fileHandle t3 = Some (handles s)" by (simp add: e3 e2 e1)
  show "flushPromise t3 = Some (promises s)" by (simp add: e3 e2 e1)
  show "settled t3 = settled s" by (simp add: e3 e2 e1)
  show "writes (calls t3) = writes (calls s)" by (simp add: e3 e2 e1 writes_def)
qed

lemma tail_init:
  assumes t: "pc t = AwaitRead rp bs" "buffer t = []" "fileHandle t = Some h"
      "flushPromise t = Some p"
    and init: "trim (take bs (drop rp (content t))) = []" "initArray (options t)"
    and u: "u = settle (ioDone None (ioDone None (ioDone None (ioDone None t))))"
  shows "settled u = settled t @ [(p, Resolved)]" "writes (calls u) = Suc (writes (calls t))"
    "buffer u = []" "flushPromise u = None"
proof -
  define t4 where "t4 = ioDone None t"
  define t5 where "t5 = ioDone None t4"
  define t6 where "t6 = ioDone None t5"
  have e4: "t4 = t\<lparr>pc := AwaitInitWrite,
       calls := calls t @ [Write (JSON_stringify (dataToWrite t) (indent (options t))) None]\<rparr>"
    unfolding t4_def using t(1) init by (rule ioDone_read_init)
  have e5: "t5 = t4\<lparr>content := content t4 @ JSON_stringify (dataToWrite t4) (indent (options t4)),
       pc := AwaitClose Resolved, calls := calls t4 @ [Close h]\<rparr>"
    unfolding t5_def using t by (intro ioDone_init_write) (simp_all add: e4)
  have e6: "t6 = t5\<lparr>closed := closed t5 @ [h], pc := Returned Resolved\<rparr>"
    unfolding t6_def using t by (intro ioDone_close) (simp_all add: e5 e4)
  have r: "ioDone None t6 = t6"
    by (rule ioDone_returned [of _ Resolved]) (simp add: e6)
  have "u = settle t6"
    unfolding u t4_def [symmetric] t5_def [symmetric] t6_def [symmetric] by (simp add: r)
  then have e: "u = t6\<lparr>flushPromise := None, pc := Idle,
      settled := settled t @ [(p, Resolved)]\<rparr>"
    using t(4) by (simp add: settle_def e6 e5 e4)
  show "settled u = settled t @ [(p, Resolved)]" by (simp add: e)
  show "writes (calls u) = Suc (writes (calls t))" by (simp add: e e6 e5 e4 writes_def)
  show "buffer u = []" using t(2) by (simp add: e e6 e5 e4)
  show "flushPromise u = None" by (simp add: e)
qed

lemma tail_invalid:
  assumes t: "pc t = AwaitRead rp bs" "fileHandle t = Some h" "flushPromise t = Some p"
    and bad: "\<not> (trim (take bs (drop rp (content t))) = [] \<and> initArray (options t))"
      "lastIndexOf (CHR '']'') (take bs (drop rp (content t))) = None"
    and u: "u = settle (ioDone None (ioDone None (ioDone None (ioDone None t))))"
  shows "settled u = settled t @ [(p, Rejected InvalidJsonArray)]"
    "writes (calls u) = writes (calls t)"
    "buffer u = dataToWrite t @ buffer t" "flushPromise u = None"
proof -
  define t4 where "t4 = ioDone None t"
  define t5 where "t5 = ioDone None t4"
  have "t4 = catchBlock InvalidJsonArray t"
    unfolding t4_def using t(1) bad by (rule ioDone_read_invalid)
  then have e4: "t4 = t\<lparr>buffer := dataToWrite t @ buffer t,
      pc := AwaitClose (Rejected InvalidJsonArray), calls := calls t @ [Close h]\<rparr>"
    using t(2) by (simp add: catchBlock_def finallyBlock_def)
  have e5: "t5 = t4\<lparr>closed := closed t4 @ [h], pc := Returned (Rejected InvalidJsonArray)\<rparr>"
    unfolding t5_def using t by (intro ioDone_close) (simp_all add: e4)
  have r: "ioDone None t5 = t5"
    by (rule ioDone_returned [of _ "Rejected InvalidJsonArray"]) (simp add: e5)
  have "u = settle t5"
    unfolding u t4_def [symmetric] t5_def [symmetric] by (simp add: r)
  then have e: "u = t5\<lparr>flushPromise := None, pc := Idle,
      settled := settled t @ [(p, Rejected InvalidJsonArray)]\<rparr>"
    using t(3) by (simp add: settle_def e5 e4)
  show "settled u = settled t @ [(p, Rejected InvalidJsonArray)]" by (simp add: e)
  show "writes (calls u) = writes (calls t)" by (simp add: e e5 e4 writes_def)
  show "buffer u = dataToWrite t @ buffer t" by (simp add: e e5 e4)
  show "flushPromise u = None" by (simp add: e)
qed

lemma tail_patch:
  assumes t: "pc t = AwaitRead rp bs" "buffer t = []" "fileHandle t = Some h"
      "flushPromise t = Some p"
    and window: "bs = min (length (content t)) 50" "rp = length (content t) - bs"
    and found: "\<not> (trim (take bs (drop rp (content t))) = [] \<and> initArray (options t))"
      "lastIndexOf (CHR '']'') (take bs (drop rp (content t))) = Some i"
    and u: "u = settle (ioDone None (ioDone None (ioDone None (ioDone None t))))"
  shows "settled u = settled t @ [(p, Resolved)]" "writes (calls u) = Suc (writes (calls t))"
    "buffer u = []" "flushPromise u = None"
proof -
  let ?tail = "take bs (drop rp (content t))"
  let ?built = "buildInsertion (options t) (dataToWrite t) i rp ?tail (trim ?tail)"
  define tp where "tp = snd ?built"
  define ins where "ins = fst ?built"
  define t4 where "t4 = ioDone None t"
  define t5 where "t5 = ioDone None t4"
  define t6 where "t6 = ioDone None t5"
  define t7 where "t7 = ioDone None t6"
  have "i < length ?tail" using found(2) by (rule lastIndexOf_less)
  then have "i < bs" by simp
  moreover have "tp \<le> rp + i" unfolding tp_def by (rule buildInsertion_position)
  ultimately have tp: "tp \<le> length (content t)"
    using window by arith
  have e4: "t4 = t\<lparr>pc := AwaitTruncate tp ins, calls := calls t @ [Truncate tp]\<rparr>"
    unfolding t4_def tp_def ins_def using t(1) found by (rule ioDone_read_patch)
  have e5: "t5 = t4\<lparr>content := take tp (content t4), pc := AwaitWrite tp ins,
       calls := calls t4 @ [Write ins (Some tp)]\<rparr>"
    unfolding t5_def by (intro ioDone_truncate) (simp add: e4)
  have e6: "t6 = t5\<lparr>content := take tp (content t5) @ ins @ drop (tp + length ins) (content t5),
       pc := AwaitClose Resolved, calls := calls t5 @ [Close h]\<rparr>"
    unfolding t6_def using t tp by (intro ioDone_write) (simp_all add: e5 e4)
  have e7: "t7 = t6\<lparr>closed := closed t6 @ [h], pc := Returned Resolved\<rparr>"
    unfolding t7_def using t by (intro ioDone_close) (simp_all add: e6 e5 e4)
  have "u = settle t7"
    unfolding u t4_def [symmetric] t5_def [symmetric] t6_def [symmetric] t7_def [symmetric] ..
  then have e: "u = t7\<lparr>flushPromise := None, pc := Idle,
      settled := settled t @ [(p, Resolved)]\<rparr>"
    using t(4) by (simp add: settle_def e7 e6 e5 e4)
  show "settled u = settled t @ [(p, Resolved)]" by (simp add: e)
  show "writes (calls u) = Suc (writes (calls t))" by (simp add: e e7 e6 e5 e4 writes_def)
  show "buffer u = []" using t(2) by (simp add: e e7 e6 e5 e4)
  show "flushPromise u = None" by (simp add: e)
qed

lemma flush_run:
  assumes idle: "flushPromise s = None" and q: "buffer s \<noteq> []"
    and sf: "sf = exec (replicate 6 (IoDone None) @ [Settle]) (snd (flush False s))"
  shows "flushPromise sf = None"
    "accepts s \<Longrightarrow> settled sf = settled s @ [(promises s, Resolved)]
       \<and> writes (calls sf) = Suc (writes (calls s)) \<and> buffer sf = []"
    "\<not> accepts s \<Longrightarrow>
       settled sf = settled s @
         [(promises s, Rejected (if fileExists s \<or> initArray (options s)
                                 then InvalidJsonArray else NoSuchFile))]
       \<and> writes (calls sf) = writes (calls s) \<and> buffer sf = buffer s"
proof -
  define body where "body = (if fileExists s then content s else [])"
  define bs where "bs = min (length body) 50"
  define rp where "rp = length body - bs"
  define tail where "tail = take bs (drop rp body)"
  define t3 where "t3 = ioDone None (ioDone None (snd (flush False s)))"
  define init where "init \<longleftrightarrow> trim tail = [] \<and> initArray (options s)"
  have acc: "accepts s \<longleftrightarrow>
     (fileExists s \<or> initArray (options s)) \<and> (init \<or> lastIndexOf (CHR '']'') tail \<noteq> None)"
    unfolding accepts_def Let_def init_def tail_def rp_def bs_def body_def ..
  have u: "sf = settle (ioDone None (ioDone None (ioDone None (ioDone None t3))))"
    unfolding sf exec_six t3_def ..
  have all: "flushPromise sf = None
    \<and> (accepts s \<longrightarrow> settled sf = settled s @ [(promises s, Resolved)]
       \<and> writes (calls sf) = Suc (writes (calls s)) \<and> buffer sf = [])
    \<and> (\<not> accepts s \<longrightarrow>
       settled sf = settled s @
         [(promises s, Rejected (if fileExists s \<or> initArray (options s)
                                 then InvalidJsonArray else NoSuchFile))]
       \<and> writes (calls sf) = writes (calls s) \<and> buffer sf = buffer s)"
  proof (cases "fileExists s \<or> initArray (options s)")
    case False
    then have no: "\<not> fileExists s" "\<not> initArray (options s)" by simp_all
    from run_missing [OF idle q no sf] False acc show ?thesis by simp
  next
    case True
    note o = run_opened [OF idle q True t3_def body_def]
    have pc3: "pc t3 = AwaitRead rp bs" using o(1) unfolding rp_def bs_def .
    have tl: "take bs (drop rp (content t3)) = tail" unfolding tail_def o(2) ..
    show ?thesis
    proof (cases init)
      case i: True
      have "trim (take bs (drop rp (content t3))) = []" "initArray (options t3)"
        using i unfolding tl o(3) init_def by simp_all
      from tail_init [OF pc3 o(5,6,7) this u] o(8,9) True i acc
      show ?thesis by simp
    next
      case i: False
      then have ni: "\<not> (trim (take bs (drop rp (content t3))) = [] \<and> initArray (options t3))"
        unfolding tl o(3) init_def .
      show ?thesis
      proof (cases "lastIndexOf (CHR '']'') tail")
        case None
        then have "lastIndexOf (CHR '']'') (take bs (drop rp (content t3))) = None"
          unfolding tl .
        from tail_invalid [OF pc3 o(6,7) ni this u] o(4,5,8,9) True i None acc
        show ?thesis by simp
      next
        case (Some i)
        then have f: "lastIndexOf (CHR '']'') (take bs (drop rp (content t3))) = Some i"
          unfolding tl .
        have w: "bs = min (length (content t3)) 50" "rp = length (content t3) - bs"
          unfolding o(2) bs_def rp_def by simp_all
        from tail_patch [OF pc3 o(5,6,7) w ni f u] o(8,9) True Some acc
        show ?thesis by simp
      qed
    qed
  qed
  then show "flushPromise sf = None"
    "accepts s \<Longrightarrow> settled sf = settled s @ [(promises s, Resolved)]
       \<and> writes (calls sf) = Suc (writes (calls s)) \<and> buffer sf = []"
    "\<not> accepts s \<Longrightarrow>
       settled sf = settled s @
         [(promises s, Rejected (if fileExists s \<or> initArray (options s)
                                 then InvalidJsonArray else NoSuchFile))]
       \<and> writes (calls sf) = writes (calls s) \<and> buffer sf = buffer s"
    by simp_all
qed

section \<open>Two flushes in a row\<close>

text \<open>
  C3. A second \<open>flush\<close> right after a first returns the same promise and leaves the
  state as the first left it. A \<open>flush\<close> while one is in flight returns the promise in
  flight and starts nothing: only the shutdown latch can change. A \<open>flush\<close> with no flush
  in flight and an empty queue makes no I/O call, leaves the file as it is, and its promise
  resolves. After two flushes in a row on a queue that is not empty, however the I/O
  calls end and with no entry appended, a promise that resolves means that \<open>write\<close> was
  called exactly once and that the queue is empty again. And the promise does resolve:
  when no I/O call fails and the file accepts the batch (it exists or is to be created,
  and the last 50 characters hold a \<open>]\<close> or are blank and the array is to be
  initialised), the two flushes end, after at most six I/O calls, with the one promise
  resolved, \<open>write\<close> called exactly once more, the queue empty and no flush in flight;
  on a file that does not accept the batch the one promise is rejected, \<open>write\<close> is not
  called and the queue is as it was.
\<close>

theorem C3_flush_twice_one_mutation:
  "fst (flush False (snd (flush False s))) = fst (flush False s)
   \<and> snd (flush False (snd (flush False s))) = snd (flush False s)
   \<and> (flushPromise s = Some p \<longrightarrow>
        fst (flush shutdown s) = p
        \<and> snd (flush shutdown s) = s\<lparr>isShutdown := isShutdown s \<or> shutdown\<rparr>)
   \<and> (flushPromise s = None \<and> buffer s = [] \<longrightarrow>
        (let s' = settle (snd (flush shutdown s))
         in calls s' = calls s \<and> content s' = content s \<and> fileExists s' = fileExists s
            \<and> settled s' = settled s @ [(promises s, Resolved)] \<and> flushPromise s' = None))
   \<and> (flushPromise s = None \<and> buffer s \<noteq> [] \<longrightarrow>
        (\<forall>faults.
           let sf = exec (map IoDone faults @ [Settle]) (snd (flush False (snd (flush False s))))
           in settled sf = settled s @ [(promises s, Resolved)] \<longrightarrow>
              writes (calls sf) = Suc (writes (calls s)) \<and> buffer sf = []
              \<and> flushPromise sf = None))
   \<and> (flushPromise s = None \<and> buffer s \<noteq> [] \<longrightarrow>
        (let sf = exec (Flush False # Flush False # replicate 6 (IoDone None) @ [Settle]) s
         in flushPromise sf = None
            \<and> (accepts s \<longrightarrow>
                 settled sf = settled s @ [(promises s, Resolved)]
                 \<and> writes (calls sf) = Suc (writes (calls s)) \<and> buffer sf = [])
            \<and> (\<not> accepts s \<longrightarrow>
                 settled sf = settled s @
                   [(promises s, Rejected (if fileExists s \<or> initArray (options s)
                                           then InvalidJsonArray else NoSuchFile))]
                 \<and> writes (calls sf) = writes (calls s) \<and> buffer sf = buffer s)))"
proof -
  have twice: "flush False (snd (flush False s)) = flush False s"
    by (cases "buffer s = []"; cases "flushPromise s")
       (simp_all add: flush_in_flight flush_idle_empty flush_idle_drain)
  have inflight: "flushPromise s = Some p \<longrightarrow>
        fst (flush shutdown s) = p
        \<and> snd (flush shutdown s) = s\<lparr>isShutdown := isShutdown s \<or> shutdown\<rparr>"
    by (simp add: flush_in_flight)
  have empty: "flushPromise s = None \<and> buffer s = [] \<longrightarrow>
        (let s' = settle (snd (flush shutdown s))
         in calls s' = calls s \<and> content s' = content s \<and> fileExists s' = fileExists s
            \<and> settled s' = settled s @ [(promises s, Resolved)] \<and> flushPromise s' = None)"
    by (simp add: flush_idle_empty settle_def Let_def)
  have one: "writes (calls sf) = Suc (writes (calls s)) \<and> buffer sf = [] \<and> flushPromise sf = None"
    if idle: "flushPromise s = None" "buffer s \<noteq> []"
      and sf: "sf = exec (map IoDone faults @ [Settle]) (snd (flush False (snd (flush False s))))"
      and res: "settled sf = settled s @ [(promises s, Resolved)]"
    for faults sf
  proof -
    let ?s1 = "snd (flush False s)"
    let ?s2 = "exec (map IoDone faults) ?s1"
    have s1: "oneWrite (writes (calls s)) ?s1" "flushPromise ?s1 = Some (promises s)"
      "settled ?s1 = settled s"
      using idle by (simp_all add: flush_idle_drain oneWrite_def)
    have sf': "sf = settle ?s2"
      using sf by (simp add: twice exec_append)
    have "oneWrite (writes (calls s)) ?s2" "flushPromise ?s2 = Some (promises s)"
      "settled ?s2 = settled s"
      using s1 by (simp_all add: oneWrite_exec)
    then show ?thesis
      using oneWrite_settle [of "writes (calls s)" ?s2 "promises s"] res sf' by simp
  qed
  have all: "flushPromise s = None \<and> buffer s \<noteq> [] \<longrightarrow>
        (\<forall>faults.
           let sf = exec (map IoDone faults @ [Settle]) (snd (flush False (snd (flush False s))))
           in settled sf = settled s @ [(promises s, Resolved)] \<longrightarrow>
              writes (calls sf) = Suc (writes (calls s)) \<and> buffer sf = []
              \<and> flushPromise sf = None)"
    unfolding Let_def using one by blast
  have run: "flushPromise s = None \<and> buffer s \<noteq> [] \<longrightarrow>
        (let sf = exec (Flush False # Flush False # replicate 6 (IoDone None) @ [Settle]) s
         in flushPromise sf = None
            \<and> (accepts s \<longrightarrow>
                 settled sf = settled s @ [(promises s, Resolved)]
                 \<and> writes (calls sf) = Suc (writes (calls s)) \<and> buffer sf = [])
            \<and> (\<not> accepts s \<longrightarrow>
                 settled sf = settled s @
                   [(promises s, Rejected (if fileExists s \<or> initArray (options s)
                                           then InvalidJsonArray else NoSuchFile))]
                 \<and> writes (calls sf) = writes (calls s) \<and> buffer sf = buffer s))"
  proof
    assume a: "flushPromise s = None \<and> buffer s \<noteq> []"
    define sf where "sf = exec (replicate 6 (IoDone None) @ [Settle]) (snd (flush False s))"
    have eq: "exec (Flush False # Flush False # replicate 6 (IoDone None) @ [Settle]) s = sf"
      unfolding sf_def by (simp add: twice)
    from a have idle: "flushPromise s = None" and q: "buffer s \<noteq> []" by simp_all
    note r = flush_run [OF idle q sf_def]
    show "let sf = exec (Flush False # Flush False # replicate 6 (IoDone None) @ [Settle]) s
         in flushPromise sf = None
            \<and> (accepts s \<longrightarrow>
                 settled sf = settled s @ [(promises s, Resolved)]
                 \<and> writes (calls sf) = Suc (writes (calls s)) \<and> buffer sf = [])
            \<and> (\<not> accepts s \<longrightarrow>
                 settled sf = settled s @
                   [(promises s, Rejected (if fileExists s \<or> initArray (options s)
                                           then InvalidJsonArray else NoSuchFile))]
                 \<and> writes (calls sf) = writes (calls s) \<and> buffer sf = buffer s)"
      unfolding Let_def eq using r by blast
  qed
  show ?thesis
    apply (intro conjI)
         apply (simp add: twice)
        apply (simp add: twice)
       apply (rule inflight)
      apply (rule empty)
     apply (rule all)
    apply (rule run)
    done
qed

theorem C3_witness:
  "settled (exec (Flush False # Flush False # replicate 6 (IoDone None) @ [Settle]) queued1)
     = [(0, Resolved)]
   \<and> writes (calls (exec (Flush False # Flush False # replicate 6 (IoDone None) @ [Settle])
       queued1)) = 1
   \<and> settled (exec (Flush False # Flush False # replicate 6 (IoDone None) @ [Settle])
       queuedNoInit) = [(0, Rejected InvalidJsonArray)]
   \<and> writes (calls (exec (Flush False # Flush False # replicate 6 (IoDone None) @ [Settle])
       queuedNoInit)) = 0
   \<and> writes (calls (exec (map IoDone [None, None, None, None, None, None] @ [Settle])
       (snd (flush False (snd (flush False queued1)))))) = 1
   \<and> fst (flush True (snd (flush False queued1))) = 0
   \<and> calls (settle (snd (flush False (newWriter (sampleOptions 5 True) True ''[]'')))) = []"
proof -
  let ?run = "exec (Flush False # Flush False # replicate 6 (IoDone None) @ [Settle])"
  let ?sf = "exec (map IoDone [None, None, None, None, None, None] @ [Settle])
       (snd (flush False (snd (flush False queued1))))"
  have idle: "flushPromise queued1 = None \<and> buffer queued1 \<noteq> []"
    by code_simp
  have acc: "accepts queued1"
    by code_simp
  have q0: "settled queued1 = []" "promises queued1 = 0" "writes (calls queued1) = 0"
    by code_simp+
  have r: "settled (?run queued1) = [(0, Resolved)] \<and> writes (calls (?run queued1)) = 1"
    using C3_flush_twice_one_mutation [of queued1] idle acc q0 unfolding Let_def by clarsimp
  have idle2: "flushPromise queuedNoInit = None \<and> buffer queuedNoInit \<noteq> []"
    by code_simp
  have nacc: "\<not> accepts queuedNoInit" "fileExists queuedNoInit"
    by code_simp+
  have n0: "settled queuedNoInit = []" "promises queuedNoInit = 0"
    "writes (calls queuedNoInit) = 0"
    by code_simp+
  have n: "settled (?run queuedNoInit) = [(0, Rejected InvalidJsonArray)]
      \<and> writes (calls (?run queuedNoInit)) = 0"
    using C3_flush_twice_one_mutation [of queuedNoInit] idle2 nacc n0 unfolding Let_def by clarsimp
  have res: "settled ?sf = settled queued1 @ [(promises queued1, Resolved)]"
    by code_simp
  have a: "writes (calls ?sf) = 1"
    using C3_flush_twice_one_mutation [of queued1] idle res q0(3)
    unfolding Let_def by (metis One_nat_def)
  have inflight: "flushPromise (snd (flush False queued1)) = Some 0"
    by code_simp
  have b: "fst (flush True (snd (flush False queued1))) = 0"
    using C3_flush_twice_one_mutation [of "snd (flush False queued1)" 0 True] inflight
    by blast
  let ?w = "newWriter (sampleOptions 5 True) True ''[]''"
  have e: "flushPromise ?w = None \<and> buffer ?w = []" "calls ?w = []"
    by code_simp+
  have c: "calls (settle (snd (flush False ?w))) = []"
    using C3_flush_twice_one_mutation [of ?w _ False] e
    unfolding Let_def by metis
  from r n a b c show ?thesis by blast
qed

section \<open>What append returns\<close>

text \<open>
  C9. \<open>append\<close> returns the promise of the flush it triggers exactly when the writer is
  not shut down and the queue, with the new entry, reaches the threshold; otherwise it
  returns \<open>undefined\<close>. The promise returned is the one in flight, and whatever happens
  next, when the function ends with an error the reaction rejects this very promise with that
  error: nothing suppresses it.
\<close>

theorem C9_append_returns_flush_promise:
  "fst (append_entry newData s) =
     (if \<not> isShutdown s \<and> bufferFlushThreshold (options s) \<le> enat (Suc (length (buffer s)))
      then Some (fst (flush False (s\<lparr>buffer := buffer s @ [newData]\<rparr>))) else None)
   \<and> (fst (append_entry newData s) = Some p \<longrightarrow>
        flushPromise (snd (append_entry newData s)) = Some p
        \<and> (\<forall>evs e. Settle \<notin> set evs
               \<and> pc (exec evs (snd (append_entry newData s))) = Returned (Rejected e) \<longrightarrow>
             settled (exec (evs @ [Settle]) (snd (append_entry newData s))) =
               settled (exec evs (snd (append_entry newData s))) @ [(p, Rejected e)]))"
proof -
  have 1: "fst (append_entry newData s) =
     (if \<not> isShutdown s \<and> bufferFlushThreshold (options s) \<le> enat (Suc (length (buffer s)))
      then Some (fst (flush False (s\<lparr>buffer := buffer s @ [newData]\<rparr>))) else None)"
    by (simp add: append_entry_def isFull_def Let_def)
  have 2: "flushPromise (snd (append_entry newData s)) = Some p" if "fst (append_entry newData s) = Some p"
    using that by (auto simp: append_entry_def Let_def flushPromise_flush split: if_splits)
  have 3: "settled (exec (evs @ [Settle]) (snd (append_entry newData s))) =
               settled (exec evs (snd (append_entry newData s))) @ [(p, Rejected e)]"
    if "fst (append_entry newData s) = Some p" "Settle \<notin> set evs"
      "pc (exec evs (snd (append_entry newData s))) = Returned (Rejected e)" for evs e
  proof -
    have "flushPromise (exec evs (snd (append_entry newData s))) = Some p"
      using that 2 by (simp add: flushPromise_exec)
    then show ?thesis
      using that(3) by (simp add: exec_append settle_def)
  qed
  from 1 2 3 show ?thesis by blast
qed

theorem C9_witness:
  "fst (append_entry (JNum 1) (newWriter (sampleOptions 1 False) False [])) = Some 0
   \<and> settled (exec ([IoDone None] @ [Settle])
         (snd (append_entry (JNum 1) (newWriter (sampleOptions 1 False) False []))))
       = [(0, Rejected NoSuchFile)]"
proof -
  let ?w = "newWriter (sampleOptions 1 False) False []"
  have a: "fst (append_entry (JNum 1) ?w) = Some 0"
    by code_simp
  have b: "Settle \<notin> set [IoDone None]
      \<and> pc (exec [IoDone None] (snd (append_entry (JNum 1) ?w))) = Returned (Rejected NoSuchFile)"
    by code_simp
  have c: "settled (exec [IoDone None] (snd (append_entry (JNum 1) ?w))) = []"
    by code_simp
  from C9_append_returns_flush_promise [of "JNum 1" ?w 0] a b c
  have "settled (exec ([IoDone None] @ [Settle]) (snd (append_entry (JNum 1) ?w)))
       = [] @ [(0, Rejected NoSuchFile)]"
    by metis
  with a show ?thesis by simp
qed

section \<open>The shutdown latch\<close>

lemma step_shutdown:
  "(\<forall>x. ev \<noteq> Append x) \<Longrightarrow>
   step ev (s\<lparr>isShutdown := True\<rparr>) = (step ev s)\<lparr>isShutdown := True\<rparr>"
proof (cases ev)
  case (Flush sh)
  then show ?thesis
    by (cases "flushPromise s"; cases sh; cases "buffer s = []")
       (simp_all add: flush_in_flight flush_idle_empty flush_idle_drain)
next
  case (IoDone fault)
  then show ?thesis
    by (cases "pc s"; cases fault; cases "fileHandle s")
       (simp_all add: ioDone_def catchBlock_def finallyBlock_def whileLoop_def Let_def
          split: option.splits)
next
  case Settle
  then show ?thesis
    by (simp add: settle_def split: pc.splits option.splits)
qed simp

lemma exec_shutdown:
  "(\<forall>x. Append x \<notin> set evs) \<Longrightarrow>
   exec evs (s\<lparr>isShutdown := True\<rparr>) = (exec evs s)\<lparr>isShutdown := True\<rparr>"
proof (induction evs arbitrary: s)
  case Nil
  show ?case by simp
next
  case (Cons ev evs)
  then have "\<forall>x. ev \<noteq> Append x" "\<forall>x. Append x \<notin> set evs" by auto
  then show ?case using Cons.IH by (simp add: step_shutdown)
qed

text \<open>
  C10. After shutdown \<open>append\<close> returns \<open>undefined\<close> and leaves the writer as it is:
  the entry is dropped. \<open>flush\<close>, the I/O completions and the reaction never read the
  latch: any run of them from a writer that is shut down is the run from the same writer not
  shut down, with the latch set. So a \<open>flush\<close> after shutdown on a queue that is not
  empty drains it and opens the file, and on an empty queue it makes no I/O call and resolves.
\<close>

theorem C10_shutdown_gates_append_only:
  "(isShutdown s \<longrightarrow> append_entry newData s = (None, s))
   \<and> (\<forall>evs. (\<forall>x. Append x \<notin> set evs) \<longrightarrow>
         exec evs (s\<lparr>isShutdown := True\<rparr>) = (exec evs s)\<lparr>isShutdown := True\<rparr>)
   \<and> (isShutdown s \<and> flushPromise s = None \<and> buffer s \<noteq> [] \<longrightarrow>
        (let s' = snd (flush shutdown s)
         in pc s' = AwaitOpen \<and> dataToWrite s' = buffer s \<and> buffer s' = []
            \<and> calls s' = calls s @ [Open (if initArray (options s) then ''a+'' else ''r+'')]))
   \<and> (isShutdown s \<and> flushPromise s = None \<and> buffer s = [] \<longrightarrow>
        (let s' = settle (snd (flush shutdown s))
         in calls s' = calls s \<and> content s' = content s
            \<and> settled s' = settled s @ [(promises s, Resolved)] \<and> flushPromise s' = None))"
proof -
  have 1: "isShutdown s \<longrightarrow> append_entry newData s = (None, s)"
    by (simp add: append_entry_def)
  have 2: "\<forall>evs. (\<forall>x. Append x \<notin> set evs) \<longrightarrow>
         exec evs (s\<lparr>isShutdown := True\<rparr>) = (exec evs s)\<lparr>isShutdown := True\<rparr>"
    by (simp add: exec_shutdown)
  have 3: "isShutdown s \<and> flushPromise s = None \<and> buffer s \<noteq> [] \<longrightarrow>
        (let s' = snd (flush shutdown s)
         in pc s' = AwaitOpen \<and> dataToWrite s' = buffer s \<and> buffer s' = []
            \<and> calls s' = calls s @ [Open (if initArray (options s) then ''a+'' else ''r+'')])"
    by (simp add: flush_idle_drain Let_def)
  have 4: "isShutdown s \<and> flushPromise s = None \<and> buffer s = [] \<longrightarrow>
        (let s' = settle (snd (flush shutdown s))
         in calls s' = calls s \<and> content s' = content s
            \<and> settled s' = settled s @ [(promises s, Resolved)] \<and> flushPromise s' = None)"
    by (simp add: flush_idle_empty settle_def Let_def)
  show ?thesis
    apply (intro conjI)
       apply (rule 1)
      apply (rule 2)
     apply (rule 3)
    apply (rule 4)
    done
qed

theorem C10_witness:
  "append_entry (JNum 2) shutQueued = (None, shutQueued)
   \<and> content (exec [Flush False, IoDone None, IoDone None, IoDone None, IoDone None, IoDone None,
         IoDone None, Settle] (shutQueued\<lparr>isShutdown := True\<rparr>)) = ''[''  @ [CHR 0x0A] @ ''  1'' @ [CHR 0x0A] @ '']''
   \<and> dataToWrite (snd (flush False shutQueued)) = [JNum 1]
   \<and> calls (settle (snd (flush False (exec [Flush False, IoDone None, IoDone None, IoDone None,
         IoDone None, IoDone None, IoDone None, Settle] shutQueued)))) =
       calls (exec [Flush False, IoDone None, IoDone None, IoDone None,
         IoDone None, IoDone None, IoDone None, Settle] shutQueued)"
proof -
  let ?evs = "[Flush False, IoDone None, IoDone None, IoDone None, IoDone None, IoDone None,
         IoDone None, Settle]"
  let ?sf = "exec ?evs shutQueued"
  have sh: "isShutdown shutQueued" "flushPromise shutQueued = None" "buffer shutQueued = [JNum 1]"
    by code_simp+
  have a: "append_entry (JNum 2) shutQueued = (None, shutQueued)"
    using C10_shutdown_gates_append_only [of shutQueued "JNum 2"] sh by blast
  have na: "\<forall>x. Append x \<notin> set ?evs"
    by simp
  have "exec ?evs (shutQueued\<lparr>isShutdown := True\<rparr>) = ?sf\<lparr>isShutdown := True\<rparr>"
    using C10_shutdown_gates_append_only [of shutQueued] na by blast
  moreover have "content ?sf = ''[''  @ [CHR 0x0A] @ ''  1'' @ [CHR 0x0A] @ '']''"
    by code_simp
  ultimately have b: "content (exec ?evs (shutQueued\<lparr>isShutdown := True\<rparr>)) =
      ''[''  @ [CHR 0x0A] @ ''  1'' @ [CHR 0x0A] @ '']''"
    by simp
  have c: "dataToWrite (snd (flush False shutQueued)) = [JNum 1]"
    using C10_shutdown_gates_append_only [of shutQueued _ False] sh
    unfolding Let_def by simp
  have e: "isShutdown ?sf \<and> flushPromise ?sf = None \<and> buffer ?sf = []"
    by code_simp
  have d: "calls (settle (snd (flush False ?sf))) = calls ?sf"
    using C10_shutdown_gates_append_only [of ?sf _ False] e
    unfolding Let_def by blast
  from a b c d show ?thesis by blast
qed

section \<open>Entries of a failed cycle\<close>

lemma wf_newWriter [simp]: "wf_state (newWriter opts exists text)"
  by (simp add: wf_state_def newWriter_def)

lemma pc_ioDone_Idle [simp]: "(pc (ioDone fault s) = Idle) = (pc s = Idle)"
  by (cases "pc s"; cases fault; cases "fileHandle s")
     (simp_all add: ioDone_def catchBlock_def finallyBlock_def whileLoop_def Let_def
        split: option.splits)

lemma wf_flush: "wf_state s \<Longrightarrow> wf_state (snd (flush shutdown s))"
  by (cases "flushPromise s"; cases shutdown; cases "buffer s = []")
     (simp_all add: wf_state_def flush_in_flight flush_idle_empty flush_idle_drain)

lemma wf_step: "wf_state s \<Longrightarrow> wf_state (step ev s)"
proof (cases ev)
  case (Append x)
  assume "wf_state s"
  then show ?thesis
    using Append wf_flush [of "s\<lparr>buffer := buffer s @ [x]\<rparr>" False]
    by (simp add: append_entry_def Let_def wf_state_def)
next
  case (Flush sh)
  assume "wf_state s"
  then show ?thesis using Flush by (simp add: wf_flush)
next
  case (IoDone fault)
  assume "wf_state s"
  then show ?thesis using IoDone by (simp add: wf_state_def)
next
  case Settle
  assume "wf_state s"
  then show ?thesis using Settle
    by (auto simp: wf_state_def settle_def split: pc.splits option.splits)
qed

lemma wf_exec: "wf_state s \<Longrightarrow> wf_state (exec evs s)"
  by (induction evs arbitrary: s) (simp_all add: wf_step)

lemma catchBlock_buffer [simp]: "buffer (catchBlock e s) = dataToWrite s @ buffer s"
  by (simp add: catchBlock_def finallyBlock_def split: option.splits)

lemma catchBlock_pc:
  "pc (catchBlock e s) = (case fileHandle s of None \<Rightarrow> Returned (Rejected e)
                           | Some h \<Rightarrow> AwaitClose (Rejected e))"
  by (simp add: catchBlock_def finallyBlock_def split: option.splits)

lemma ioDone_fault_inCycle: "inCycle (pc s) \<Longrightarrow> ioDone (Some e) s = catchBlock e s"
  by (cases "pc s") (simp_all add: inCycle_def ioDone_def)

lemma ioDone_rejected_buffer:
  assumes "inCycle (pc s)"
    and "pc (ioDone fault s) = AwaitClose (Rejected e) \<or> pc (ioDone fault s) = Returned (Rejected e)"
  shows "buffer (ioDone fault s) = dataToWrite s @ buffer s"
  using assms
  by (cases "pc s"; cases fault; cases "fileHandle s")
     (auto simp: inCycle_def ioDone_def catchBlock_def finallyBlock_def whileLoop_def Let_def
        split: option.splits if_splits)

lemma pending_flush: "wf_state s \<Longrightarrow> pending (snd (flush shutdown s)) = pending s"
  by (cases "flushPromise s"; cases shutdown; cases "buffer s = []")
     (auto simp: wf_state_def pending_def inCycle_def flush_in_flight flush_idle_empty flush_idle_drain)

lemma pending_ioDone:
  "pending (ioDone fault s) =
     (if writeCompletes fault s then drop (length (dataToWrite s)) (pending s) else pending s)"
  by (cases "pc s"; cases fault; cases "fileHandle s")
     (auto simp: pending_def writeCompletes_def inCycle_def ioDone_def catchBlock_def
        finallyBlock_def whileLoop_def Let_def split: option.splits)

lemma pending_settle: "pending (settle s) = pending s"
  by (auto simp: pending_def inCycle_def settle_def split: pc.splits option.splits)

lemma pending_append:
  "wf_state s \<Longrightarrow> pending (snd (append_entry x s)) = pending s @ (if isShutdown s then [] else [x])"
  using pending_flush [of "s\<lparr>buffer := buffer s @ [x]\<rparr>" False]
  by (simp add: append_entry_def Let_def) (simp add: wf_state_def pending_def)

lemma append_in_flight:
  "flushPromise s = Some p \<Longrightarrow> \<not> isShutdown s \<Longrightarrow>
   snd (append_entry x s) = s\<lparr>buffer := buffer s @ [x]\<rparr>
   \<and> (fst (append_entry x s) = None \<or> fst (append_entry x s) = Some p)"
  by (simp add: append_entry_def Let_def flush_in_flight)

text \<open>
  C2, as the code has it. Inside the cycle (from the drain to the completion of the write)
  every failing I/O call puts the drained entries back at the front of the queue, in their
  order and ahead of the entries the queue holds, which are those appended since the drain;
  the function then goes to close the handle and to reject with that error. The same holds
  whenever a step inside the cycle ends in a rejection, as for the missing closing bracket.
  An entry appended while a flush is in flight goes to the back of the queue, and the
  reaction of the flush leaves the queue alone. At every event the entries whose write has
  not completed stay the same sequence: an accepted entry joins at the back, and a
  completed write removes its batch from the front.

  The claim as stated fails where only \<open>close\<close> fails after a completed write: the
  flush rejects and the entries are in the file, not in the queue.
\<close>

theorem C2_failed_cycle_restores_batch:
  "(inCycle (pc s) \<longrightarrow>
      buffer (ioDone (Some e) s) = dataToWrite s @ buffer s
      \<and> (pc (ioDone (Some e) s) = AwaitClose (Rejected e)
           \<or> pc (ioDone (Some e) s) = Returned (Rejected e)))
   \<and> (inCycle (pc s)
        \<and> (pc (ioDone fault s) = AwaitClose (Rejected e) \<or> pc (ioDone fault s) = Returned (Rejected e))
       \<longrightarrow> buffer (ioDone fault s) = dataToWrite s @ buffer s)
   \<and> (flushPromise s = Some p \<and> \<not> isShutdown s \<longrightarrow>
        snd (append_entry newData s) = s\<lparr>buffer := buffer s @ [newData]\<rparr>)
   \<and> buffer (settle s) = buffer s
   \<and> (wf_state s \<longrightarrow>
        pending (step ev s) =
          (case ev of
             Append x \<Rightarrow> pending s @ (if isShutdown s then [] else [x])
           | IoDone r \<Rightarrow>
               if writeCompletes r s then drop (length (dataToWrite s)) (pending s) else pending s
           | _ \<Rightarrow> pending s))"
proof -
  have 5: "wf_state s \<longrightarrow>
        pending (step ev s) =
          (case ev of
             Append x \<Rightarrow> pending s @ (if isShutdown s then [] else [x])
           | IoDone r \<Rightarrow>
               if writeCompletes r s then drop (length (dataToWrite s)) (pending s) else pending s
           | _ \<Rightarrow> pending s)"
    by (cases ev) (simp_all add: pending_append pending_flush pending_ioDone pending_settle)
  have 4: "buffer (settle s) = buffer s"
    by (simp add: settle_def split: pc.splits option.splits)
  show ?thesis
    apply (intro conjI)
        apply (simp add: ioDone_fault_inCycle catchBlock_pc split: option.splits)
       apply (blast intro: ioDone_rejected_buffer)
      apply (simp add: append_in_flight)
     apply (rule 4)
    apply (rule 5)
    done
qed

theorem C2_close_failure_counterexample:
  "settled closeFails = [(0, Rejected (Fault ''close''))]
   \<and> buffer closeFails = []
   \<and> content closeFails = ''['' @ [CHR 0x0A] @ ''  1'' @ [CHR 0x0A] @ '']''"
  by code_simp


theorem C2_witness:
  "buffer (ioDone (Some (Fault ''write'')) writePending) = [JNum 1, JNum 2]
   \<and> buffer (snd (append_entry (JNum 3) writePending)) = [JNum 2, JNum 3]
   \<and> pending (step (IoDone (Some (Fault ''write''))) writePending) = [JNum 1, JNum 2]
   \<and> pending (step (IoDone None) writePending) = [JNum 2]"
proof -
  have h: "inCycle (pc writePending)" "dataToWrite writePending = [JNum 1]"
    "buffer writePending = [JNum 2]" "flushPromise writePending = Some 0"
    "\<not> isShutdown writePending" "wf_state writePending"
    "\<not> writeCompletes (Some (Fault ''write'')) writePending"
    "writeCompletes None writePending"
    "pending writePending = [JNum 1, JNum 2]"
    by code_simp+
  have a: "buffer (ioDone (Some (Fault ''write'')) writePending) = [JNum 1, JNum 2]"
    using C2_failed_cycle_restores_batch [of writePending "Fault ''write''"] h by simp
  have b: "buffer (snd (append_entry (JNum 3) writePending)) = [JNum 2, JNum 3]"
    using C2_failed_cycle_restores_batch [of writePending _ _ 0 "JNum 3"] h by simp
  have c: "pending (step (IoDone (Some (Fault ''write''))) writePending) = [JNum 1, JNum 2]"
    using C2_failed_cycle_restores_batch
      [of writePending _ _ _ _ "IoDone (Some (Fault ''write''))"] h by simp
  have d: "pending (step (IoDone None) writePending) = [JNum 2]"
    using C2_failed_cycle_restores_batch [of writePending _ _ _ _ "IoDone None"] h by simp
  from a b c d show ?thesis by blast
qed

section \<open>Entries appended during a flush\<close>

text \<open>
  C4, as the code has it. An entry appended while a flush is in flight is queued and is not
  part of the batch being written; no second flush starts. When the write of the batch
  completes and the queue is not empty, the same call of \<open>ensureAllIsFlushed\<close> drains the
  queue and opens the file again, under the same promise; it leaves the loop only when the
  queue is empty at that moment.

  The claim as stated fails: with one entry appended during the first cycle, a single
  \<open>flush\<close> writes twice and leaves the queue empty.
\<close>

theorem C4_appended_entries_drained_by_same_flush:
  "(flushPromise s = Some p \<and> \<not> isShutdown s \<longrightarrow>
      snd (append_entry newData s) = s\<lparr>buffer := buffer s @ [newData]\<rparr>
      \<and> (fst (append_entry newData s) = None \<or> fst (append_entry newData s) = Some p))
   \<and> (writeCompletes None s \<and> buffer s \<noteq> [] \<longrightarrow>
        (let s' = ioDone None s
         in pc s' = AwaitOpen \<and> dataToWrite s' = buffer s \<and> buffer s' = []
            \<and> flushPromise s' = flushPromise s
            \<and> calls s' = calls s @ [Open (if initArray (options s) then ''a+'' else ''r+'')]))
   \<and> (writeCompletes None s \<and> buffer s = [] \<longrightarrow>
        pc (ioDone None s) = AwaitClose Resolved \<or> pc (ioDone None s) = Returned Resolved)"
proof -
  have 2: "writeCompletes None s \<and> buffer s \<noteq> [] \<longrightarrow>
        (let s' = ioDone None s
         in pc s' = AwaitOpen \<and> dataToWrite s' = buffer s \<and> buffer s' = []
            \<and> flushPromise s' = flushPromise s
            \<and> calls s' = calls s @ [Open (if initArray (options s) then ''a+'' else ''r+'')])"
    by (cases "pc s")
       (simp_all add: writeCompletes_def ioDone_def whileLoop_def Let_def)
  have 3: "writeCompletes None s \<and> buffer s = [] \<longrightarrow>
        pc (ioDone None s) = AwaitClose Resolved \<or> pc (ioDone None s) = Returned Resolved"
    by (cases "pc s"; cases "fileHandle s")
       (simp_all add: writeCompletes_def ioDone_def whileLoop_def finallyBlock_def Let_def)
  show ?thesis
    apply (intro conjI)
      apply (simp add: append_in_flight)
     apply (rule 2)
    apply (rule 3)
    done
qed

theorem C4_self_chaining_counterexample:
  "promises appendedMeanwhile = 1
   \<and> settled appendedMeanwhile = [(0, Resolved)]
   \<and> buffer appendedMeanwhile = []
   \<and> content appendedMeanwhile =
       ''['' @ [CHR 0x0A] @ ''  1,'' @ [CHR 0x0A] @ ''  2'' @ [CHR 0x0A] @ '']''
   \<and> writes (calls appendedMeanwhile) = 2"
  by code_simp

theorem C4_witness:
  "buffer (snd (append_entry (JNum 3) writePending)) = [JNum 2, JNum 3]
   \<and> dataToWrite (ioDone None writePending) = [JNum 2]
   \<and> pc (ioDone None writePending) = AwaitOpen
   \<and> pc (ioDone None (ioDone None (ioDone None (ioDone None (ioDone None (ioDone None writePending))))))
       = AwaitClose Resolved"
proof -
  let ?s2 = "ioDone None (ioDone None (ioDone None (ioDone None (ioDone None writePending))))"
  have h: "flushPromise writePending = Some 0" "\<not> isShutdown writePending"
    "writeCompletes None writePending" "buffer writePending = [JNum 2]"
    by code_simp+
  have h2: "writeCompletes None ?s2" "buffer ?s2 = []"
    "pc (ioDone None ?s2) \<noteq> Returned Resolved"
    by code_simp+
  have a: "buffer (snd (append_entry (JNum 3) writePending)) = [JNum 2, JNum 3]"
    using C4_appended_entries_drained_by_same_flush [of writePending 0 "JNum 3"] h by simp
  have b: "dataToWrite (ioDone None writePending) = [JNum 2]
      \<and> pc (ioDone None writePending) = AwaitOpen"
    using C4_appended_entries_drained_by_same_flush [of writePending] h
    unfolding Let_def by simp
  have c: "pc (ioDone None ?s2) = AwaitClose Resolved"
    using C4_appended_entries_drained_by_same_flush [of ?s2] h2 by blast
  from a b c show ?thesis by blast
qed

section \<open>File handles\<close>

text \<open>
  C5 at the input where it fails: an entry is appended while the file is being opened for
  the first one, and every call succeeds. The flush opens the file twice, handles \<open>0\<close>
  and \<open>1\<close>, and closes handle \<open>1\<close> only: the \<open>finally\<close> block closes the handle
  the variable holds at the end.
\<close>

theorem C5_first_handle_never_closed:
  "handles appendedMeanwhile = 2
   \<and> closed appendedMeanwhile = [1]
   \<and> flushPromise appendedMeanwhile = None
   \<and> settled appendedMeanwhile = [(0, Resolved)]
   \<and> calls appendedMeanwhile =
       [Open ''a+'', Stat, Read 2 0, Truncate 1, Write ([CHR 0x0A] @ ''  1'' @ [CHR 0x0A] @ '']'') (Some 1),
        Open ''a+'', Stat, Read 7 0, Truncate 5, Write ('','' @ [CHR 0x0A] @ ''  2'' @ [CHR 0x0A] @ '']'') (Some 5),
        Close 1]"
  by code_simp

section \<open>An empty file without initialisation\<close>

text \<open>
  C8, as the code has it. \<open>jappend\<close> with \<open>initArray: false\<close> on a file that exists and
  is empty returns a promise that rejects with the error of the missing closing bracket; the
  file is opened with \<open>r+\<close>, read and closed, no \<open>write\<close> or \<open>truncate\<close> is called, the
  content stays empty and the entry is back in the queue. When the file does not exist,
  \<open>fileOpen\<close> rejects, the promise rejects with that error and no file is created.

  The claim as stated fails: on the empty file the error is not the one of a missing file.
\<close>

theorem C8_empty_file_rejects_as_invalid_array:
  "opt_initArray opts = Some False \<longrightarrow>
     fst (jappend opts newData True []) = Some 0
     \<and> (let s = exec [IoDone None, IoDone None, IoDone None, IoDone None, Settle]
                  (snd (jappend opts newData True []))
        in settled s = [(0, Rejected InvalidJsonArray)] \<and> content s = [] \<and> fileExists s
           \<and> calls s = [Open ''r+'', Stat, Read 0 0, Close 0] \<and> buffer s = [newData])
     \<and> (let s = exec [IoDone None, Settle] (snd (jappend opts newData False []))
        in settled s = [(0, Rejected NoSuchFile)] \<and> content s = [] \<and> \<not> fileExists s
           \<and> calls s = [Open ''r+''] \<and> buffer s = [newData])"
  by (simp add: Let_def jappend_def convertOptions_def newWriter_def append_entry_def isFull_def
      flush_def ensureAllIsFlushed_def whileLoop_def ioDone_def catchBlock_def finallyBlock_def
      settle_def trim_def lastIndexOf_def one_enat_def)

theorem C8_not_file_not_found_counterexample:
  "settled emptyNoInit = [(0, Rejected InvalidJsonArray)]
   \<and> settled emptyNoInit \<noteq> [(0, Rejected NoSuchFile)]
   \<and> content emptyNoInit = []"
  by code_simp

theorem C8_witness:
  "settled (exec [IoDone None, IoDone None, IoDone None, IoDone None, Settle]
       (snd (jappend (fireAndForget\<lparr>opt_initArray := Some False\<rparr>) (JNum 1) True [])))
     = [(0, Rejected InvalidJsonArray)]
   \<and> settled (exec [IoDone None, Settle]
       (snd (jappend (fireAndForget\<lparr>opt_initArray := Some False\<rparr>) (JNum 1) False [])))
     = [(0, Rejected NoSuchFile)]"
proof -
  have h: "opt_initArray (fireAndForget\<lparr>opt_initArray := Some False\<rparr>) = Some False"
    by simp
  show ?thesis
    using C8_empty_file_rejects_as_invalid_array
      [of "fireAndForget\<lparr>opt_initArray := Some False\<rparr>" "JNum 1"] h
    unfolding Let_def by blast
qed

section \<open>Errors of a flush triggered by the threshold\<close>

text \<open>
  C6 at the input where it fails: the options of the fire-and-forget benchmark, which carry
  \<open>suppressThresholdFlushErrors: true\<close>. \<open>convertOptions\<close> keeps the declared options
  only; the second \<open>append\<close> returns the promise of the flush, the write fails, and that
  promise rejects with the error of the write.
\<close>

theorem C6_threshold_flush_error_reaches_caller:
  "convertOptions fireAndForget = sampleOptions 2 True
   \<and> fst (append_entry (JNum 2)
          (snd (append_entry (JNum 1) (newWriter (convertOptions fireAndForget) True ''[]''))))
       = Some 0
   \<and> settled thresholdFlushFails = [(0, Rejected (Fault ''disk full''))]
   \<and> buffer thresholdFlushFails = [JNum 1, JNum 2]"
  by code_simp

section \<open>A flush that resolves and leaves no array\<close>

text \<open>
  C1. The class promises that the file remains a valid JSON array. The writer decides on
  the separating comma from the last 50 characters of the file alone. On \<open>wideGapFile\<close>,
  a valid array of one element, that window is 49 spaces and the closing bracket: the
  writer takes the array for empty, truncates the file after the \<open>1\<close> and writes the
  entry without a comma. Every call succeeds and the promise of the flush resolves, and
  the file holds \<open>1\<close> and \<open>2\<close> with no comma between them, which is no JSON text. On the
  file \<open>[1]\<close> the same flush writes the comma.
\<close>

theorem C1_resolved_flush_omits_comma:
  "length wideGapFile = 52
   \<and> settled wideGapRun = [(0, Resolved)]
   \<and> calls wideGapRun =
       [Open ''a+'', Stat, Read 50 2, Truncate 2,
        Write ([CHR 0x0A] @ ''  2'' @ [CHR 0x0A] @ '']'') (Some 2), Close 0]
   \<and> content wideGapRun = ''[1'' @ [CHR 0x0A] @ ''  2'' @ [CHR 0x0A] @ '']''
   \<and> content smallFileRun = ''[1,'' @ [CHR 0x0A] @ ''  2'' @ [CHR 0x0A] @ '']''"
proof -
  have a: "length wideGapFile = 52"
    by (simp add: wideGapFile_def)
  have b: "settled wideGapRun = [(0, Resolved)]"
    by code_simp
  have c: "calls wideGapRun =
       [Open ''a+'', Stat, Read 50 2, Truncate 2,
        Write ([CHR 0x0A] @ ''  2'' @ [CHR 0x0A] @ '']'') (Some 2), Close 0]"
    by code_simp
  have d: "content wideGapRun = ''[1'' @ [CHR 0x0A] @ ''  2'' @ [CHR 0x0A] @ '']''"
    by code_simp
  have e: "content smallFileRun = ''[1,'' @ [CHR 0x0A] @ ''  2'' @ [CHR 0x0A] @ '']''"
    by code_simp
  from a b c d e show ?thesis by blast
qed

end
